theory Spec2Isabelle
  imports Complex_Main
begin

section \<open>JavaScript values and the object store\<close>

text \<open>
  The SDK passes events, payloads and metadata around as JavaScript objects, that is, as
  references. Two of the properties below depend on which objects are shared, so objects
  live in an explicit store: an address is an index into the list of allocated objects, and
  an object is the map of its own enumerable properties (the order of the keys plays no
  part in what follows). A number held as a property value is kept as an integer: the SDK
  stores such values and never computes with them.
\<close>

type_synonym addr = nat

datatype jsval =
    JUndefined
  | JNull
  | JBool bool
  | JNum int
  | JStr string
  | JObj addr

type_synonym jsobj = "string \<rightharpoonup> jsval"

type_synonym heap = "jsobj list"

definition props :: "heap \<Rightarrow> addr \<Rightarrow> jsobj" where
  "props h a = (if a < length h then h ! a else Map.empty)"

definition alloc :: "heap \<Rightarrow> jsobj \<Rightarrow> heap \<times> addr" where
  "alloc h ob = (h @ [ob], length h)"

text \<open>The \<^verbatim>\<open>typeof\<close> operator; \<^verbatim>\<open>typeof null\<close> is \<^verbatim>\<open>"object"\<close>.\<close>

fun typeof :: "jsval \<Rightarrow> string" where
  "typeof JUndefined = ''undefined''"
| "typeof JNull = ''object''"
| "typeof (JBool b) = ''boolean''"
| "typeof (JNum n) = ''number''"
| "typeof (JStr s) = ''string''"
| "typeof (JObj a) = ''object''"

text \<open>
  Property read \<^verbatim>\<open>v.k\<close>: a missing property reads as \<^verbatim>\<open>undefined\<close>. The source reads
  properties of object references only (\<^verbatim>\<open>isValidEvent\<close> returns before reading anything
  from \<^verbatim>\<open>null\<close> or a primitive).
\<close>

fun get_prop :: "heap \<Rightarrow> jsval \<Rightarrow> string \<Rightarrow> jsval" where
  "get_prop h (JObj a) k = (case props h a k of None \<Rightarrow> JUndefined | Some v \<Rightarrow> v)"
| "get_prop h v k = JUndefined"

text \<open>Property write \<^verbatim>\<open>o.k = v\<close> and \<^verbatim>\<open>delete o.k\<close> on an allocated object.\<close>

definition set_prop :: "heap \<Rightarrow> addr \<Rightarrow> string \<Rightarrow> jsval \<Rightarrow> heap" where
  "set_prop h a k v = (if a < length h then h[a := (h ! a)(k \<mapsto> v)] else h)"

definition delete_prop :: "heap \<Rightarrow> addr \<Rightarrow> string \<Rightarrow> heap" where
  "delete_prop h a k = (if a < length h then h[a := (h ! a)(k := None)] else h)"

text \<open>
  The properties a spread \<^verbatim>\<open>...v\<close> contributes to an object literal: the own properties of an
  object, nothing for \<^verbatim>\<open>undefined\<close>, \<^verbatim>\<open>null\<close>, booleans and numbers. The spread is shallow: a
  property value that is a reference is copied as a reference. (The declared type
  \<^verbatim>\<open>Record<string, unknown>\<close> of every spread operand in the source excludes strings.) A
  literal \<^verbatim>\<open>{ ...o, k: v }\<close> is then the map \<open>(spread h o)(k \<mapsto> v)\<close>.
\<close>

fun spread :: "heap \<Rightarrow> jsval \<Rightarrow> jsobj" where
  "spread h (JObj a) = props h a"
| "spread h v = Map.empty"

text \<open>Reading along a path of property names, \<^verbatim>\<open>v.k1.k2...\<close>.\<close>

fun get_path :: "heap \<Rightarrow> jsval \<Rightarrow> string list \<Rightarrow> jsval" where
  "get_path h v [] = v"
| "get_path h v (k # ks) = get_path h (get_prop h v k) ks"

section \<open>Events (\<^verbatim>\<open>src/events.ts\<close>)\<close>

datatype EventType = TOOL_CALL | LLM_INVOKE | DATA_ACCESS | API_CALL | FILE_WRITE | DECISION

text \<open>The string value of each enum member.\<close>

fun EventType_value :: "EventType \<Rightarrow> string" where
  "EventType_value TOOL_CALL = ''tool_call''"
| "EventType_value LLM_INVOKE = ''llm_invoke''"
| "EventType_value DATA_ACCESS = ''data_access''"
| "EventType_value API_CALL = ''api_call''"
| "EventType_value FILE_WRITE = ''file_write''"
| "EventType_value DECISION = ''decision''"

text \<open>\<^verbatim>\<open>Object.values(EventType)\<close>.\<close>

definition EventType_values :: "jsval list" where
  "EventType_values =
     map (\<lambda>t. JStr (EventType_value t))
       [TOOL_CALL, LLM_INVOKE, DATA_ACCESS, API_CALL, FILE_WRITE, DECISION]"

text \<open>
  \<^verbatim>\<open>createEvent(type, name, payload = {}, metadata = {})\<close>. An omitted argument is \<open>None\<close>
  and takes the default, a fresh empty object. \<^verbatim>\<open>crypto.randomUUID()\<close> and
  \<^verbatim>\<open>new Date().toISOString()\<close> are supplied by the environment as \<open>uuid\<close> and \<open>now\<close>. After
  the defaults, three objects are allocated: the copy of the payload, the copy of the
  metadata and the event. The result is the new store and the address of the event.
\<close>

definition default_arg :: "heap \<Rightarrow> addr option \<Rightarrow> heap \<times> addr" where
  "default_arg h arg = (case arg of None \<Rightarrow> alloc h Map.empty | Some a \<Rightarrow> (h, a))"

definition createEvent ::
  "string \<Rightarrow> string \<Rightarrow> heap \<Rightarrow> EventType \<Rightarrow> string \<Rightarrow> addr option \<Rightarrow> addr option \<Rightarrow> heap \<times> addr"
where
  "createEvent uuid now h ty name payload metadata =
     (let (h1, p) = default_arg h payload;
          (h2, m) = default_arg h1 metadata;
          (h3, pc) = alloc h2 (spread h2 (JObj p));
          (h4, mc) = alloc h3 (spread h3 (JObj m))
      in alloc h4
           [''id'' \<mapsto> JStr uuid,
            ''type'' \<mapsto> JStr (EventType_value ty),
            ''name'' \<mapsto> JStr name,
            ''payload'' \<mapsto> JObj pc,
            ''metadata'' \<mapsto> JObj mc,
            ''timestamp'' \<mapsto> JStr now])"

text \<open>\<^verbatim>\<open>isValidEvent(obj)\<close>, with the store the references are read in.\<close>

definition isValidEvent :: "heap \<Rightarrow> jsval \<Rightarrow> bool" where
  "isValidEvent h obj =
     (if typeof obj \<noteq> ''object'' \<or> obj = JNull then False
      else
        typeof (get_prop h obj ''id'') = ''string'' \<and>
        typeof (get_prop h obj ''type'') = ''string'' \<and>
        get_prop h obj ''type'' \<in> set EventType_values \<and>
        typeof (get_prop h obj ''name'') = ''string'' \<and>
        typeof (get_prop h obj ''payload'') = ''object'' \<and>
        get_prop h obj ''payload'' \<noteq> JNull \<and>
        typeof (get_prop h obj ''metadata'') = ''object'' \<and>
        get_prop h obj ''metadata'' \<noteq> JNull \<and>
        typeof (get_prop h obj ''timestamp'') = ''string'')"

section \<open>The dispatch client (\<^verbatim>\<open>TruseraClient\<close>)\<close>

text \<open>
  A thrown error, or the reason of a rejected promise: \<^verbatim>\<open>new Error(message)\<close>, or the
  \<^verbatim>\<open>RangeError\<close> the engine throws when a call is given more arguments than it accepts.
\<close>

datatype js_error = Error string | RangeError string

text \<open>
  The configuration values typed \<^verbatim>\<open>number\<close> are JavaScript numbers and the constructor
  accepts any of them: a finite value (fractions and negative values included), \<^verbatim>\<open>NaN\<close>,
  or an infinity.
\<close>

datatype js_number = Finite real | NaN | PosInfinity | NegInfinity

text \<open>\<^verbatim>\<open>ToIntegerOrInfinity\<close> on a finite value: the fraction is dropped, towards zero.\<close>

definition to_integer :: "real \<Rightarrow> int" where
  "to_integer x = (if x < 0 then \<lceil>x\<rceil> else \<lfloor>x\<rfloor>)"

text \<open>The comparison \<^verbatim>\<open>n >= d\<close> of an array length with a number; it is false for \<^verbatim>\<open>NaN\<close>.\<close>

fun length_ge :: "nat \<Rightarrow> js_number \<Rightarrow> bool" where
  "length_ge n (Finite x) = (x \<le> real n)"
| "length_ge n NaN = False"
| "length_ge n PosInfinity = False"
| "length_ge n NegInfinity = True"

text \<open>
  What the client reads of a \<^verbatim>\<open>Response\<close>: its status and the outcome of \<^verbatim>\<open>response.text()\<close>
  (\<open>Inl\<close> when that promise rejects). \<^verbatim>\<open>response.ok\<close> is the Fetch standard's: the status
  is in the range 200 to 299.
\<close>

record response =
  status :: int
  text_body :: "js_error + string"

definition ok :: "response \<Rightarrow> bool" where
  "ok r = (200 \<le> status r \<and> status r \<le> 299)"

datatype fetch_outcome = Resolves response | Rejects js_error

record request =
  url :: string
  http_method :: string
  headers :: "(string \<times> string) list"
  body :: string

text \<open>The two \<^verbatim>\<open>console.error\<close> lines of \<^verbatim>\<open>flush\<close>.\<close>

datatype console_entry =
    FailedToSend int string
  | NetworkErrorSending js_error

text \<open>
  What lies outside the client: the object store, the calls made to \<^verbatim>\<open>globalThis.fetch\<close>
  (oldest first), the error console, and the largest number of arguments the engine
  accepts in one call (it differs from engine to engine). Debug logging (\<^verbatim>\<open>this.log\<close>)
  changes none of them and is left out.
\<close>

record world =
  store :: heap
  fetch_calls :: "request list"
  console :: "console_entry list"
  max_arguments :: nat

text \<open>
  \<^verbatim>\<open>JSON.stringify({ events: batch })\<close> is a parameter of the model: given the store and the
  batch it returns the text, or \<open>Inl\<close> when it throws (a cyclic payload, for instance).
\<close>

type_synonym stringify = "heap \<Rightarrow> addr list \<Rightarrow> js_error + string"

record TruseraClientOptions =
  opt_apiKey :: string
  opt_baseUrl :: "string option"
  opt_agentId :: "string option"
  opt_flushInterval :: "js_number option"
  opt_batchSize :: "js_number option"
  opt_debug :: "bool option"

text \<open>
  The fields of the class. \<open>eventQueue\<close> holds references to event objects, oldest first;
  \<open>flushTimer\<close> is the running interval timer, represented by its period.
\<close>

record TruseraClient =
  apiKey :: string
  baseUrl :: string
  batchSize :: js_number
  flushInterval :: js_number
  debug :: bool
  agentId :: "string option"
  eventQueue :: "addr list"
  flushTimer :: "js_number option"
  isClosed :: bool

definition startsWith :: "string \<Rightarrow> string \<Rightarrow> bool" where
  "startsWith s p = (take (length p) s = p)"

definition startFlushTimer :: "TruseraClient \<Rightarrow> TruseraClient" where
  "startFlushTimer c = c\<lparr>flushTimer := Some (flushInterval c)\<rparr>"

definition stopFlushTimer :: "TruseraClient \<Rightarrow> TruseraClient" where
  "stopFlushTimer c = (case flushTimer c of None \<Rightarrow> c | Some t \<Rightarrow> c\<lparr>flushTimer := None\<rparr>)"

text \<open>The constructor: defaults with \<^verbatim>\<open>??\<close>, then the check of the key, then the timer.\<close>

definition new_TruseraClient :: "TruseraClientOptions \<Rightarrow> js_error + TruseraClient" where
  "new_TruseraClient options =
     (let c = \<lparr>apiKey = opt_apiKey options,
               baseUrl = (case opt_baseUrl options of None \<Rightarrow> ''https://api.trusera.io'' | Some u \<Rightarrow> u),
               batchSize = (case opt_batchSize options of None \<Rightarrow> Finite 100 | Some n \<Rightarrow> n),
               flushInterval = (case opt_flushInterval options of None \<Rightarrow> Finite 5000 | Some n \<Rightarrow> n),
               debug = (case opt_debug options of None \<Rightarrow> False | Some d \<Rightarrow> d),
               agentId = opt_agentId options,
               eventQueue = [],
               flushTimer = None,
               isClosed = False\<rparr>
      in if \<not> startsWith (apiKey c) ''tsk_''
         then Inl (Error (''Invalid API key format. Must start with '' @ [CHR 0x27] @ ''tsk_'' @ [CHR 0x27]))
         else Inr (startFlushTimer c))"

definition getQueueSize :: "TruseraClient \<Rightarrow> nat" where
  "getQueueSize c = length (eventQueue c)"

definition getAgentId :: "TruseraClient \<Rightarrow> string option" where
  "getAgentId c = agentId c"

text \<open>
  \<^verbatim>\<open>xs.splice(0, deleteCount)\<close>: the count is converted with \<^verbatim>\<open>ToIntegerOrInfinity\<close> (\<^verbatim>\<open>NaN\<close>
  counts as 0) and clamped to \<open>0 .. length xs\<close>; the result is the removed elements and what
  is left of the array.
\<close>

fun delete_count :: "js_number \<Rightarrow> nat \<Rightarrow> nat" where
  "delete_count (Finite x) len = nat (min (max (to_integer x) 0) (int len))"
| "delete_count NaN len = 0"
| "delete_count PosInfinity len = len"
| "delete_count NegInfinity len = 0"

definition splice0 :: "'a list \<Rightarrow> js_number \<Rightarrow> 'a list \<times> 'a list" where
  "splice0 xs deleteCount =
     (let k = delete_count deleteCount (length xs) in (take k xs, drop k xs))"

text \<open>
  \<^verbatim>\<open>this.eventQueue.unshift(...batch)\<close>: the spread passes every element of the batch as an
  argument of one call, which the engine refuses with a \<^verbatim>\<open>RangeError\<close> when there are more
  of them than it accepts; otherwise the batch is put in front of the queue, in its order.
\<close>

definition unshift :: "nat \<Rightarrow> addr list \<Rightarrow> TruseraClient \<Rightarrow> js_error + TruseraClient" where
  "unshift limit batch c =
     (if limit < length batch then Inl (RangeError ''Maximum call stack size exceeded'')
      else Inr (c\<lparr>eventQueue := batch @ eventQueue c\<rparr>))"

text \<open>
  \<^verbatim>\<open>flush\<close> is an async function with one suspension point, \<^verbatim>\<open>await fetch(...)\<close>. It runs in
  two parts. \<open>flush_start\<close> is the part that runs synchronously when \<^verbatim>\<open>flush()\<close> is called,
  up to the call of \<^verbatim>\<open>fetch\<close>; it ends returned, rejected, or suspended with its batch.
  \<open>flush_resume\<close> is the part that runs once the promise of \<^verbatim>\<open>fetch\<close> has settled; the
  second await, of \<^verbatim>\<open>response.text()\<close>, is taken together with what follows it. In each
  part the \<^verbatim>\<open>try\<close> block yields \<open>Inl\<close> where it throws, and \<open>flush_catch\<close> is the handler; what
  the handler throws leaves \<^verbatim>\<open>flush\<close>, whose promise is then rejected.
\<close>

datatype flush_progress = Returned | Rejected js_error | Awaiting "addr list"

fun in_flight :: "flush_progress \<Rightarrow> addr list" where
  "in_flight Returned = []"
| "in_flight (Rejected e) = []"
| "in_flight (Awaiting batch) = batch"

definition flush_catch ::
  "js_error \<Rightarrow> addr list \<Rightarrow> TruseraClient \<Rightarrow> world \<Rightarrow> (js_error + unit) \<times> TruseraClient \<times> world"
where
  "flush_catch e batch c w =
     (let w1 = w\<lparr>console := console w @ [NetworkErrorSending e]\<rparr>
      in case unshift (max_arguments w) batch c of
           Inl e' \<Rightarrow> (Inl e', c, w1)
         | Inr c' \<Rightarrow> (Inr (), c', w1))"

definition flush_try_call :: "stringify \<Rightarrow> addr list \<Rightarrow> TruseraClient \<Rightarrow> world \<Rightarrow> js_error + world" where
  "flush_try_call S batch c w =
     (case S (store w) batch of
        Inl e \<Rightarrow> Inl e
      | Inr b \<Rightarrow>
          Inr (w\<lparr>fetch_calls := fetch_calls w @
                 [\<lparr>url = baseUrl c @ ''/api/v1/events/batch'',
                   http_method = ''POST'',
                   headers = [(''Content-Type'', ''application/json''),
                              (''Authorization'', ''Bearer '' @ apiKey c)],
                   body = b\<rparr>]\<rparr>))"

definition flush_start :: "stringify \<Rightarrow> TruseraClient \<Rightarrow> world \<Rightarrow> flush_progress \<times> TruseraClient \<times> world" where
  "flush_start S c w =
     (if length (eventQueue c) = 0 then (Returned, c, w)
      else
        let (batch, rest) = splice0 (eventQueue c) (batchSize c);
            c1 = c\<lparr>eventQueue := rest\<rparr>
        in case flush_try_call S batch c1 w of
             Inl e \<Rightarrow>
               (case flush_catch e batch c1 w of
                  (Inl e', c2, w2) \<Rightarrow> (Rejected e', c2, w2)
                | (Inr u, c2, w2) \<Rightarrow> (Returned, c2, w2))
           | Inr w1 \<Rightarrow> (Awaiting batch, c1, w1))"

text \<open>
  The \<^verbatim>\<open>try\<close> block once \<^verbatim>\<open>fetch\<close> has settled. The console line of the failure branch is
  written before \<^verbatim>\<open>unshift\<close> is called, so the world is returned also where the block throws.
\<close>

definition flush_try_settled ::
  "fetch_outcome \<Rightarrow> addr list \<Rightarrow> TruseraClient \<Rightarrow> world \<Rightarrow> (js_error + TruseraClient) \<times> world"
where
  "flush_try_settled out batch c w =
     (case out of
        Rejects e \<Rightarrow> (Inl e, w)
      | Resolves r \<Rightarrow>
          if \<not> ok r then
            (case text_body r of
               Inl e \<Rightarrow> (Inl e, w)
             | Inr t \<Rightarrow>
                 (unshift (max_arguments w) batch c,
                  w\<lparr>console := console w @ [FailedToSend (status r) t]\<rparr>))
          else (Inr c, w))"

definition flush_resume ::
  "fetch_outcome \<Rightarrow> addr list \<Rightarrow> TruseraClient \<Rightarrow> world \<Rightarrow> (js_error + unit) \<times> TruseraClient \<times> world"
where
  "flush_resume out batch c w =
     (case flush_try_settled out batch c w of
        (Inl e, w1) \<Rightarrow> flush_catch e batch c w1
      | (Inr c1, w1) \<Rightarrow> (Inr (), c1, w1))"

text \<open>
  \<^verbatim>\<open>await client.flush()\<close> with nothing else running on the client in between: both parts
  in sequence, \<open>out\<close> being how the call of \<^verbatim>\<open>fetch\<close> settles. The first component is how the
  promise of \<^verbatim>\<open>flush\<close> settles: \<open>Inr ()\<close> fulfilled, \<open>Inl e\<close> rejected with \<open>e\<close>.
\<close>

definition flush ::
  "stringify \<Rightarrow> fetch_outcome \<Rightarrow> TruseraClient \<Rightarrow> world \<Rightarrow> (js_error + unit) \<times> TruseraClient \<times> world"
where
  "flush S out c w =
     (case flush_start S c w of
        (Returned, c1, w1) \<Rightarrow> (Inr (), c1, w1)
      | (Rejected e, c1, w1) \<Rightarrow> (Inl e, c1, w1)
      | (Awaiting batch, c1, w1) \<Rightarrow> flush_resume out batch c1 w1)"

text \<open>
  \<^verbatim>\<open>track(event)\<close>. The enriched metadata and the enriched event are two new objects; an
  agent identifier that is \<^verbatim>\<open>undefined\<close> is stored as such. When the queue has reached
  the batch size, \<^verbatim>\<open>void this.flush()\<close> runs the synchronous part of \<^verbatim>\<open>flush\<close> inside \<^verbatim>\<open>track\<close>
  and drops the promise; the model returns the progress of that flush (\<open>Returned\<close> when none
  was started) so that a run can resume it later.
\<close>

definition track ::
  "stringify \<Rightarrow> addr \<Rightarrow> TruseraClient \<Rightarrow> world \<Rightarrow> (js_error + flush_progress) \<times> TruseraClient \<times> world"
where
  "track S event c w =
     (if isClosed c then (Inl (Error ''Cannot track events on closed client''), c, w)
      else
        let h = store w;
            (h1, md) = alloc h ((spread h (get_prop h (JObj event) ''metadata''))
                         (''agent_id'' \<mapsto> (case agentId c of None \<Rightarrow> JUndefined | Some a \<Rightarrow> JStr a),
                          ''sdk_version'' \<mapsto> JStr ''0.1.0''));
            (h2, enriched) = alloc h1 ((spread h1 (JObj event))(''metadata'' \<mapsto> JObj md));
            c1 = c\<lparr>eventQueue := eventQueue c @ [enriched]\<rparr>;
            w1 = w\<lparr>store := h2\<rparr>
        in if length_ge (length (eventQueue c1)) (batchSize c1)
           then (let (p, c2, w2) = flush_start S c1 w1 in (Inr p, c2, w2))
           else (Inr Returned, c1, w1))"

text \<open>
  \<^verbatim>\<open>close()\<close>: the flag, the timer, then \<^verbatim>\<open>await this.flush()\<close>. \<open>close_start\<close> is the part that
  runs synchronously, up to the call of \<^verbatim>\<open>fetch\<close> by the final flush; \<open>close\<close> is
  \<^verbatim>\<open>await client.close()\<close> with nothing else running on the client in between.
\<close>

definition close_start :: "stringify \<Rightarrow> TruseraClient \<Rightarrow> world \<Rightarrow> flush_progress \<times> TruseraClient \<times> world" where
  "close_start S c w =
     (let c1 = c\<lparr>isClosed := True\<rparr>;
          c2 = stopFlushTimer c1
      in flush_start S c2 w)"

definition close ::
  "stringify \<Rightarrow> fetch_outcome \<Rightarrow> TruseraClient \<Rightarrow> world \<Rightarrow> (js_error + unit) \<times> TruseraClient \<times> world"
where
  "close S out c w =
     (let c1 = c\<lparr>isClosed := True\<rparr>;
          c2 = stopFlushTimer c1
      in flush S out c2 w)"

text \<open>
  A send that fails, in the words of the specification: a network error (the promise of
  \<^verbatim>\<open>fetch\<close> rejects) or a response whose status is not 2xx.
\<close>

definition send_failed :: "fetch_outcome \<Rightarrow> bool" where
  "send_failed out = (case out of Rejects e \<Rightarrow> True | Resolves r \<Rightarrow> \<not> ok r)"

text \<open>
  The states a client passes through after a given one: any sequence of calls of
  \<^verbatim>\<open>track\<close>, of started and resumed flushes, of \<^verbatim>\<open>close\<close>, in any world, and of agent
  registrations (\<^verbatim>\<open>registerAgent\<close> changes the client by assigning \<open>agentId\<close> only).
\<close>

inductive later_state :: "TruseraClient \<Rightarrow> TruseraClient \<Rightarrow> bool" where
  later_refl: "later_state c c"
| later_track: "later_state c c1 \<Longrightarrow> track S event c1 w = (r, c2, w2) \<Longrightarrow> later_state c c2"
| later_flush_start: "later_state c c1 \<Longrightarrow> flush_start S c1 w = (p, c2, w2) \<Longrightarrow> later_state c c2"
| later_flush_resume:
    "later_state c c1 \<Longrightarrow> flush_resume out batch c1 w = (u, c2, w2) \<Longrightarrow> later_state c c2"
| later_close: "later_state c c1 \<Longrightarrow> close S out c1 w = (u, c2, w2) \<Longrightarrow> later_state c c2"
| later_register: "later_state c c1 \<Longrightarrow> later_state c (c1\<lparr>agentId := Some a\<rparr>)"

section \<open>The transport interceptor (\<^verbatim>\<open>TruseraInterceptor\<close>)\<close>

text \<open>
  Modelled from the spec: \<^verbatim>\<open>src/interceptor.ts\<close>, the class \<^verbatim>\<open>TruseraInterceptor\<close> with
  \<^verbatim>\<open>install\<close>, \<^verbatim>\<open>uninstall\<close> and the intercepting function, is not among the sources; only
  its tests and its documentation are. Every definition of this section follows sections 3
  and 4.2 of the specification; the two message prefixes are those of the tests and of the
  examples.
\<close>

text \<open>
  Modelled from the spec: a transport function, the value held by \<^verbatim>\<open>globalThis.fetch\<close>.
  It is either some function from outside the SDK or the intercepting function of an
  interceptor instance; instances are numbered.
\<close>

datatype transport = External nat | Intercepting nat

text \<open>Modelled from the spec: the three enforcement modes, fixed per install.\<close>

datatype enforcement_mode = Log | Warn | Block

text \<open>Modelled from the spec: the configuration recognised by \<^verbatim>\<open>install\<close>, defaults applied.\<close>

record interceptor_options =
  enforcement :: enforcement_mode
  policyUrl :: "string option"
  excludePatterns :: "string list"
  verbose :: bool

text \<open>
  Modelled from the spec: the process-wide transport slot. \<open>transport_slot\<close> is the global
  transport, \<open>active\<close> the instance that holds the slot, and per instance there are its
  installed flag, the transport it saved at install and its options.
\<close>

record process =
  transport_slot :: transport
  active :: "nat option"
  installed :: "nat \<Rightarrow> bool"
  saved :: "nat \<Rightarrow> transport option"
  options_of :: "nat \<Rightarrow> interceptor_options option"

text \<open>Modelled from the spec: the process at start, with no interceptor installed.\<close>

definition initial_process :: "transport \<Rightarrow> process" where
  "initial_process t =
     \<lparr>transport_slot = t, active = None, installed = (\<lambda>i. False), saved = (\<lambda>i. None),
      options_of = (\<lambda>i. None)\<rparr>"

text \<open>
  Modelled from the spec: the already-installed error, with the message the tests expect.
\<close>

definition AlreadyInstalledError :: js_error where
  "AlreadyInstalledError = Error ''Another TruseraInterceptor is already installed''"

text \<open>
  Modelled from the spec: \<^verbatim>\<open>install\<close> called on instance \<open>i\<close>. It fails when a different
  instance holds the slot, does nothing when \<open>i\<close> itself holds it, and otherwise saves the
  active transport and puts the instance's intercepting function in its place.
\<close>

definition install :: "process \<Rightarrow> nat \<Rightarrow> interceptor_options \<Rightarrow> js_error + process" where
  "install P i opts =
     (case active P of
        Some j \<Rightarrow> if j = i then Inr P else Inl AlreadyInstalledError
      | None \<Rightarrow>
          Inr (P\<lparr>transport_slot := Intercepting i,
                 active := Some i,
                 installed := (installed P)(i := True),
                 saved := (saved P)(i \<mapsto> transport_slot P),
                 options_of := (options_of P)(i \<mapsto> opts)\<rparr>))"

text \<open>
  Modelled from the spec: \<^verbatim>\<open>uninstall\<close> called on instance \<open>i\<close>. It restores the saved
  transport and clears the installed flag; it does nothing when \<open>i\<close> is not installed.
\<close>

definition uninstall :: "process \<Rightarrow> nat \<Rightarrow> process" where
  "uninstall P i =
     (if \<not> installed P i then P
      else case saved P i of
             None \<Rightarrow> P
           | Some t \<Rightarrow>
               P\<lparr>transport_slot := t,
                 active := None,
                 installed := (installed P)(i := False),
                 saved := (saved P)(i := None)\<rparr>)"

text \<open>
  Modelled from the spec: the states a process can be in. It starts with no interceptor
  installed; instances are installed and uninstalled; and code outside the SDK may assign
  the global transport, as the tests do before they install.
\<close>

inductive reachable :: "process \<Rightarrow> bool" where
  reach_initial: "reachable (initial_process t)"
| reach_install: "reachable P \<Longrightarrow> install P i opts = Inr P' \<Longrightarrow> reachable P'"
| reach_uninstall: "reachable P \<Longrightarrow> reachable (uninstall P i)"
| reach_assign: "reachable P \<Longrightarrow> reachable (P\<lparr>transport_slot := External n\<rparr>)"

text \<open>
  Modelled from the spec: instance \<open>i\<close> was installed when the global transport was \<open>t\<close>
  and has not been uninstalled since. In between, any instance may call \<^verbatim>\<open>install\<close>, other
  instances may call \<^verbatim>\<open>uninstall\<close>, and code outside the SDK may assign the transport.
\<close>

inductive installed_since :: "nat \<Rightarrow> transport \<Rightarrow> process \<Rightarrow> bool" where
  since_install:
    "reachable P \<Longrightarrow> \<not> installed P i \<Longrightarrow> install P i opts = Inr P' \<Longrightarrow>
       installed_since i (transport_slot P) P'"
| since_install_again: "installed_since i t P \<Longrightarrow> install P j opts = Inr P' \<Longrightarrow> installed_since i t P'"
| since_uninstall_other: "installed_since i t P \<Longrightarrow> j \<noteq> i \<Longrightarrow> installed_since i t (uninstall P j)"
| since_assign: "installed_since i t P \<Longrightarrow> installed_since i t (P\<lparr>transport_slot := External n\<rparr>)"

text \<open>
  Modelled from the spec: the invariant of the slot. The installed flag of an instance is set exactly when the
  instance holds the slot, and an installed instance has a saved transport.
\<close>

definition slot_invariant :: "process \<Rightarrow> bool" where
  "slot_invariant P = (\<forall>i. (installed P i \<longleftrightarrow> active P = Some i) \<and> (installed P i \<longrightarrow> saved P i \<noteq> None))"

text \<open>
  Modelled from the spec: the policy service answers with a decision and its reasons, or
  the call to it fails (the service is unreachable or errors).
\<close>

datatype policy_decision = Allow | Deny

datatype policy_outcome = PolicyAnswers policy_decision "string list" | PolicyFails js_error

text \<open>
  Modelled from the spec: the events an intercepted call emits, what the caller of the
  intercepted call gets (the outcome of the real call handed on unchanged, or a
  \<^verbatim>\<open>PolicyViolationError\<close> with its message), and the record of one interception: the events
  tracked, the calls made to the policy service, the calls made through the saved prior
  transport with their URL, the console warnings, the logged policy failures, and the result.
\<close>

datatype call_event = CallStarted string | CallCompleted int | CallErrored js_error

datatype call_result = Passed fetch_outcome | PolicyViolationError string

record interception =
  tracked :: "call_event list"
  policy_calls :: "string list"
  real_calls :: "(transport \<times> string) list"
  warnings :: "string list"
  policy_failures :: "js_error list"
  outcome :: call_result

text \<open>
  Modelled from the spec: a URL is excluded when it matches any of the patterns; the
  regular-expression test is a parameter.
\<close>

definition is_excluded :: "(string \<Rightarrow> string \<Rightarrow> bool) \<Rightarrow> string list \<Rightarrow> string \<Rightarrow> bool" where
  "is_excluded re_test patterns u = list_ex (\<lambda>p. re_test p u) patterns"

text \<open>
  Modelled from the spec: the first denial reason in the message of a violation. The spec
  does not say what the message is when the policy gives no reason; the message then ends
  after the prefix.
\<close>

definition first_reason :: "string list \<Rightarrow> string" where
  "first_reason rs = (case rs of [] \<Rightarrow> [] | r # _ \<Rightarrow> r)"

text \<open>
  Modelled from the spec: step 4 of the interception algorithm. The policy service is
  called when a policy URL is configured and the mode is not \<open>Log\<close>. The result is the
  list of policy calls, the warnings, the logged failures, and \<open>Some\<close> message when the call
  is to be aborted.
\<close>

definition policy_step ::
  "interceptor_options \<Rightarrow> policy_outcome \<Rightarrow> string list \<times> string list \<times> js_error list \<times> string option"
where
  "policy_step opts policy =
     (case policyUrl opts of
        None \<Rightarrow> ([], [], [], None)
      | Some pu \<Rightarrow>
          if enforcement opts = Log then ([], [], [], None)
          else
            (case policy of
               PolicyFails e \<Rightarrow> ([pu], [], [e], None)
             | PolicyAnswers Allow rs \<Rightarrow> ([pu], [], [], None)
             | PolicyAnswers Deny rs \<Rightarrow>
                 (case enforcement opts of
                    Log \<Rightarrow> ([pu], [], [], None)
                  | Warn \<Rightarrow> ([pu], [''[Trusera] Policy violation (allowed): '' @ first_reason rs], [], None)
                  | Block \<Rightarrow> ([pu], [], [], Some (''[Trusera] Policy violation: '' @ first_reason rs)))))"

text \<open>
  Modelled from the spec: steps 5 and 6, the real call through the saved prior transport
  and the event for its outcome, which is handed on unchanged.
\<close>

definition outcome_event :: "fetch_outcome \<Rightarrow> call_event" where
  "outcome_event actual = (case actual of Resolves r \<Rightarrow> CallCompleted (status r) | Rejects e \<Rightarrow> CallErrored e)"

text \<open>
  Modelled from the spec: the interception algorithm for one call to \<open>u\<close>, where \<open>prior\<close> is
  the saved prior transport, \<open>policy\<close> is how the policy service would answer and \<open>actual\<close>
  how the real call would settle.
\<close>

definition intercept ::
  "(string \<Rightarrow> string \<Rightarrow> bool) \<Rightarrow> interceptor_options \<Rightarrow> transport \<Rightarrow> string \<Rightarrow>
     policy_outcome \<Rightarrow> fetch_outcome \<Rightarrow> interception"
where
  "intercept re_test opts prior u policy actual =
     (if is_excluded re_test (excludePatterns opts) u
      then \<lparr>tracked = [], policy_calls = [], real_calls = [(prior, u)], warnings = [],
            policy_failures = [], outcome = Passed actual\<rparr>
      else
        (case policy_step opts policy of
           (pcs, ws, fs, Some msg) \<Rightarrow>
             \<lparr>tracked = [CallStarted u], policy_calls = pcs, real_calls = [], warnings = ws,
              policy_failures = fs, outcome = PolicyViolationError msg\<rparr>
         | (pcs, ws, fs, None) \<Rightarrow>
             \<lparr>tracked = [CallStarted u, outcome_event actual], policy_calls = pcs,
              real_calls = [(prior, u)], warnings = ws, policy_failures = fs,
              outcome = Passed actual\<rparr>))"

section \<open>Example states\<close>

text \<open>
  The client of the test suite, as its constructor leaves it, and a world with nothing in
  it, on an engine that accepts 65535 arguments in a call.
\<close>

definition test_client :: TruseraClient where
  "test_client =
     \<lparr>apiKey = ''tsk_test123'', baseUrl = ''https://api.trusera.io'', batchSize = Finite 100,
      flushInterval = Finite 999999, debug = False, agentId = None, eventQueue = [],
      flushTimer = Some (Finite 999999), isClosed = False\<rparr>"

definition empty_world :: world where
  "empty_world = \<lparr>store = [], fetch_calls = [], console = [], max_arguments = 65535\<rparr>"

text \<open>
  Two instances of \<^verbatim>\<open>JSON.stringify\<close> for the examples, one that serialises every batch and
  one that throws on every batch, and a regular-expression test that matches nothing.
\<close>

fun stringify_ok :: stringify where
  "stringify_ok h batch = Inr ''{}''"

fun stringify_throws :: stringify where
  "stringify_throws h batch = Inl (Error ''cyclic object value'')"

fun no_match :: "string \<Rightarrow> string \<Rightarrow> bool" where
  "no_match pattern u = False"

text \<open>The options the test suite constructs its client with.\<close>

definition test_options :: TruseraClientOptions where
  "test_options =
     \<lparr>opt_apiKey = ''tsk_test123'', opt_baseUrl = None, opt_agentId = None,
      opt_flushInterval = Some (Finite 999999), opt_batchSize = None, opt_debug = None\<rparr>"

text \<open>
  A world that holds one event, at address 2, with its payload at 0 and its metadata at 1;
  and a store in which the object at 1 refers to the object at 0.
\<close>

definition tracked_world :: world where
  "tracked_world =
     \<lparr>store =
        [Map.empty,
         [''session_id'' \<mapsto> JStr ''abc-123''],
         [''id'' \<mapsto> JStr ''e1'', ''type'' \<mapsto> JStr ''tool_call'', ''name'' \<mapsto> JStr ''test.tool'',
          ''payload'' \<mapsto> JObj 0, ''metadata'' \<mapsto> JObj 1,
          ''timestamp'' \<mapsto> JStr ''2024-01-01T00:00:00.000Z'']],
      fetch_calls = [], console = [], max_arguments = 65535\<rparr>"

definition nested_store :: heap where
  "nested_store = [[''a'' \<mapsto> JNum 1], [''nested'' \<mapsto> JObj 0]]"

text \<open>The install options of the block-mode tests.\<close>

definition example_options :: interceptor_options where
  "example_options =
     \<lparr>enforcement = Block, policyUrl = Some ''https://policy.example.com/evaluate'',
      excludePatterns = [''^https://api[.]trusera[.]io/.*''], verbose = False\<rparr>"

text \<open>
  Two flushes that overlap and both fail, on a queue of four events with a batch size of
  two: the first flush is started, the second is started while the first is in flight,
  then the send of the first fails, then the send of the second. Each definition is the
  client and the world after one of these steps.
\<close>

definition server_error :: fetch_outcome where
  "server_error = Resolves \<lparr>status = 500, text_body = Inr ''Internal Server Error''\<rparr>"

definition overlap_0 :: "TruseraClient \<times> world" where
  "overlap_0 = (test_client\<lparr>batchSize := Finite 2, eventQueue := [4, 7, 10, 13]\<rparr>, empty_world)"

definition overlap_1 :: "TruseraClient \<times> world" where
  "overlap_1 = snd (flush_start stringify_ok (fst overlap_0) (snd overlap_0))"

definition overlap_2 :: "TruseraClient \<times> world" where
  "overlap_2 = snd (flush_start stringify_ok (fst overlap_1) (snd overlap_1))"

definition overlap_3 :: "TruseraClient \<times> world" where
  "overlap_3 = snd (flush_resume server_error [4, 7] (fst overlap_2) (snd overlap_2))"

definition overlap_4 :: "TruseraClient \<times> world" where
  "overlap_4 = snd (flush_resume server_error [10, 13] (fst overlap_3) (snd overlap_3))"

section \<open>Basic facts about the store\<close>

lemma props_alloc_new: "props (h @ [ob]) (length h) = ob"
  by (simp add: props_def)

lemma props_alloc_old: "a < length h \<Longrightarrow> props (h @ [ob]) a = props h a"
  by (simp add: props_def nth_append)

lemma get_prop_new:
  "get_prop (h @ [ob]) (JObj (length h)) k = (case ob k of None \<Rightarrow> JUndefined | Some v \<Rightarrow> v)"
  by (simp add: props_alloc_new)

lemma createEvent_shape:
  "\<exists>h4 pc mc. createEvent uuid now h ty name payload metadata =
     (h4 @ [[''id'' \<mapsto> JStr uuid,
            ''type'' \<mapsto> JStr (EventType_value ty),
            ''name'' \<mapsto> JStr name,
            ''payload'' \<mapsto> JObj pc,
            ''metadata'' \<mapsto> JObj mc,
            ''timestamp'' \<mapsto> JStr now]], length h4)"
  by (auto simp add: createEvent_def alloc_def Let_def split_beta)

lemma EventType_value_listed: "JStr (EventType_value ty) \<in> set EventType_values"
  by (cases ty) (simp_all add: EventType_values_def)

section \<open>Events: validity\<close>

text \<open>
  C10. For every event type, name, payload and metadata (given or omitted), and whatever
  identifier and timestamp the environment supplies, the event that \<^verbatim>\<open>createEvent\<close>
  returns satisfies \<^verbatim>\<open>isValidEvent\<close> in the store that \<^verbatim>\<open>createEvent\<close> leaves.
\<close>

theorem createEvent_isValidEvent:
  "isValidEvent (fst (createEvent uuid now h ty name payload metadata))
     (JObj (snd (createEvent uuid now h ty name payload metadata)))"
proof -
  obtain h4 pc mc where
    "createEvent uuid now h ty name payload metadata =
       (h4 @ [[''id'' \<mapsto> JStr uuid,
            ''type'' \<mapsto> JStr (EventType_value ty),
            ''name'' \<mapsto> JStr name,
            ''payload'' \<mapsto> JObj pc,
            ''metadata'' \<mapsto> JObj mc,
            ''timestamp'' \<mapsto> JStr now]], length h4)"
    using createEvent_shape by blast
  then show ?thesis
    by (simp add: isValidEvent_def get_prop_new EventType_value_listed del: get_prop.simps)
qed

theorem createEvent_isValidEvent_witness:
  "snd (createEvent ''id1'' ''2024-01-01T00:00:00.000Z'' [] TOOL_CALL ''test.tool'' None None) = 4 \<and>
   isValidEvent (fst (createEvent ''id1'' ''2024-01-01T00:00:00.000Z'' [] TOOL_CALL ''test.tool'' None None))
     (JObj 4)"
proof -
  have s: "snd (createEvent ''id1'' ''2024-01-01T00:00:00.000Z'' [] TOOL_CALL ''test.tool'' None None) = 4"
    by (simp add: createEvent_def default_arg_def alloc_def)
  show ?thesis
    using createEvent_isValidEvent [of "''id1''" "''2024-01-01T00:00:00.000Z''" "[]" TOOL_CALL
        "''test.tool''" None None] s
    by simp
qed

section \<open>Events: copies\<close>

lemma default_arg_cases:
  "default_arg h arg = (h1, p) \<Longrightarrow>
     (arg = None \<and> h1 = h @ [Map.empty] \<and> p = length h) \<or> (arg = Some p \<and> h1 = h)"
  by (auto simp: default_arg_def alloc_def split: option.splits)

lemma createEvent_layout:
  assumes "createEvent uuid now h ty name payload metadata = (h', e)"
  shows "\<exists>xs pco mco.
     h' = (h @ xs) @ [pco, mco,
             [''id'' \<mapsto> JStr uuid, ''type'' \<mapsto> JStr (EventType_value ty), ''name'' \<mapsto> JStr name,
              ''payload'' \<mapsto> JObj (length (h @ xs)), ''metadata'' \<mapsto> JObj (Suc (length (h @ xs))),
              ''timestamp'' \<mapsto> JStr now]] \<and>
     e = Suc (Suc (length (h @ xs))) \<and>
     (payload = None \<longrightarrow> pco = Map.empty) \<and>
     (\<forall>p. payload = Some p \<and> p < length h \<longrightarrow> pco = props h p) \<and>
     (metadata = None \<longrightarrow> mco = Map.empty) \<and>
     (\<forall>m. metadata = Some m \<and> m < length h \<longrightarrow> mco = props h m)"
proof -
  obtain h1 p where d1: "default_arg h payload = (h1, p)" by (meson surj_pair)
  obtain h2 m where d2: "default_arg h1 metadata = (h2, m)" by (meson surj_pair)
  let ?pco = "props h2 p"
  let ?mco = "props (h2 @ [?pco]) m"
  have ce: "h' = h2 @ [?pco, ?mco,
             [''id'' \<mapsto> JStr uuid, ''type'' \<mapsto> JStr (EventType_value ty), ''name'' \<mapsto> JStr name,
              ''payload'' \<mapsto> JObj (length h2), ''metadata'' \<mapsto> JObj (Suc (length h2)),
              ''timestamp'' \<mapsto> JStr now]]" "e = Suc (Suc (length h2))"
    using assms d1 d2 by (simp_all add: createEvent_def alloc_def)
  obtain xs where xs: "h2 = h @ xs"
    using default_arg_cases [OF d1] default_arg_cases [OF d2] by auto
  have pn: "?pco = Map.empty" if "payload = None"
    using that default_arg_cases [OF d1] default_arg_cases [OF d2]
    by (auto simp: props_def nth_append)
  have ps: "?pco = props h p'" if "payload = Some p'" "p' < length h" for p'
    using that default_arg_cases [OF d1] default_arg_cases [OF d2]
    by (auto simp: props_def nth_append)
  have mn: "?mco = Map.empty" if "metadata = None"
    using that default_arg_cases [OF d1] default_arg_cases [OF d2]
    by (auto simp: props_def nth_append)
  have ms: "?mco = props h m'" if "metadata = Some m'" "m' < length h" for m'
    using that default_arg_cases [OF d1] default_arg_cases [OF d2]
    by (auto simp: props_def nth_append)
  show ?thesis
    apply (rule exI [of _ xs], rule exI [of _ ?pco], rule exI [of _ ?mco])
    using ce xs pn ps mn ms by simp
qed

lemma props_write_other:
  "h'' = set_prop h' a k v \<or> h'' = delete_prop h' a k \<Longrightarrow> b \<noteq> a \<Longrightarrow> props h'' b = props h' b"
  by (auto simp: set_prop_def delete_prop_def props_def split: if_splits)

text \<open>
  C5, as the code has it. \<^verbatim>\<open>createEvent\<close> copies the payload and the metadata one level
  deep: the event holds new objects with the keys and values the caller's maps had at
  construction, and a later write to or delete from any object that existed before the
  call changes neither the event's fields nor the keys and values of its payload and
  metadata objects.
\<close>

theorem createEvent_copies_top_level:
  assumes "createEvent uuid now h ty name payload metadata = (h', e)"
    and "a < length h"
    and "h'' = set_prop h' a k v \<or> h'' = delete_prop h' a k"
  shows "(\<forall>f. get_prop h'' (JObj e) f = get_prop h' (JObj e) f) \<and>
         spread h'' (get_prop h'' (JObj e) ''payload'') = spread h' (get_prop h' (JObj e) ''payload'') \<and>
         spread h'' (get_prop h'' (JObj e) ''metadata'') = spread h' (get_prop h' (JObj e) ''metadata'') \<and>
         (payload = None \<longrightarrow> spread h' (get_prop h' (JObj e) ''payload'') = Map.empty) \<and>
         (\<forall>p. payload = Some p \<and> p < length h \<longrightarrow>
              spread h' (get_prop h' (JObj e) ''payload'') = props h p) \<and>
         (metadata = None \<longrightarrow> spread h' (get_prop h' (JObj e) ''metadata'') = Map.empty) \<and>
         (\<forall>m. metadata = Some m \<and> m < length h \<longrightarrow>
              spread h' (get_prop h' (JObj e) ''metadata'') = props h m)"
proof -
  obtain xs pco mco where
    h': "h' = (h @ xs) @ [pco, mco,
             [''id'' \<mapsto> JStr uuid, ''type'' \<mapsto> JStr (EventType_value ty), ''name'' \<mapsto> JStr name,
              ''payload'' \<mapsto> JObj (length (h @ xs)), ''metadata'' \<mapsto> JObj (Suc (length (h @ xs))),
              ''timestamp'' \<mapsto> JStr now]]"
    and e: "e = Suc (Suc (length (h @ xs)))"
    and pn: "payload = None \<longrightarrow> pco = Map.empty"
    and ps: "\<forall>p. payload = Some p \<and> p < length h \<longrightarrow> pco = props h p"
    and mn: "metadata = None \<longrightarrow> mco = Map.empty"
    and ms: "\<forall>m. metadata = Some m \<and> m < length h \<longrightarrow> mco = props h m"
    using createEvent_layout [OF assms(1)] by blast
  let ?n = "length (h @ xs)"
  have ne: "e \<noteq> a" "?n \<noteq> a" "Suc ?n \<noteq> a" using e assms(2) by simp_all
  have pe: "props h'' e = props h' e" using props_write_other [OF assms(3)] ne(1) by blast
  have pp: "props h'' ?n = props h' ?n" using props_write_other [OF assms(3)] ne(2) by blast
  have pm: "props h'' (Suc ?n) = props h' (Suc ?n)" using props_write_other [OF assms(3)] ne(3) by blast
  have gp: "get_prop h' (JObj e) ''payload'' = JObj ?n" using h' e by (simp add: props_def nth_append)
  have gm: "get_prop h' (JObj e) ''metadata'' = JObj (Suc ?n)" using h' e by (simp add: props_def nth_append)
  have 1: "\<forall>f. get_prop h'' (JObj e) f = get_prop h' (JObj e) f" using pe by simp
  have vp: "props h' ?n = pco" using h' by (simp add: props_def nth_append)
  have vm: "props h' (Suc ?n) = mco" using h' by (simp add: props_def nth_append)
  show ?thesis using 1 gp gm pp pm vp vm pn ps mn ms by simp
qed

theorem createEvent_copies_top_level_witness:
  "1 < length nested_store \<and>
   spread (set_prop (fst (createEvent ''id1'' ''t0'' nested_store TOOL_CALL ''n'' (Some 1) None))
             1 ''nested'' (JNum 7))
     (get_prop (set_prop (fst (createEvent ''id1'' ''t0'' nested_store TOOL_CALL ''n'' (Some 1) None))
                  1 ''nested'' (JNum 7))
        (JObj (snd (createEvent ''id1'' ''t0'' nested_store TOOL_CALL ''n'' (Some 1) None)))
        ''payload'')
     ''nested'' = Some (JObj 0)"
proof -
  let ?r = "createEvent ''id1'' ''t0'' nested_store TOOL_CALL ''n'' (Some 1) None"
  have c: "?r = (fst ?r, snd ?r)" by simp
  have l: "1 < length nested_store" by (simp add: nested_store_def)
  have w: "set_prop (fst ?r) 1 ''nested'' (JNum 7) = set_prop (fst ?r) 1 ''nested'' (JNum 7) \<or>
           set_prop (fst ?r) 1 ''nested'' (JNum 7) = delete_prop (fst ?r) 1 ''nested''" by simp
  note T = createEvent_copies_top_level [OF c l w]
  have X: "spread (set_prop (fst ?r) 1 ''nested'' (JNum 7))
          (get_prop (set_prop (fst ?r) 1 ''nested'' (JNum 7)) (JObj (snd ?r)) ''payload'')
        = spread (fst ?r) (get_prop (fst ?r) (JObj (snd ?r)) ''payload'')"
    using T by blast
  have Y: "spread (fst ?r) (get_prop (fst ?r) (JObj (snd ?r)) ''payload'') = props nested_store 1"
    using T l by blast
  have Z: "props nested_store 1 ''nested'' = Some (JObj 0)"
    by (simp add: props_def nested_store_def)
  show ?thesis using l X Y Z by (simp only:)
qed

text \<open>
  C5 as stated fails: the copy is not deep. A nested object of the caller's payload is
  shared with the event's payload, so \<^verbatim>\<open>payload.nested.a = 2\<close>, done by the caller after
  construction, shows through \<^verbatim>\<open>event.payload.nested.a\<close>.
\<close>

theorem createEvent_nested_shared_counterexample:
  "get_path (fst (createEvent ''id1'' ''t0'' nested_store TOOL_CALL ''n'' (Some 1) None))
      (JObj (snd (createEvent ''id1'' ''t0'' nested_store TOOL_CALL ''n'' (Some 1) None)))
      [''payload'', ''nested'', ''a''] = JNum 1 \<and>
   get_path (set_prop (fst (createEvent ''id1'' ''t0'' nested_store TOOL_CALL ''n'' (Some 1) None))
        0 ''a'' (JNum 2))
      (JObj (snd (createEvent ''id1'' ''t0'' nested_store TOOL_CALL ''n'' (Some 1) None)))
      [''payload'', ''nested'', ''a''] = JNum 2"
  by (simp add: createEvent_def default_arg_def alloc_def nested_store_def props_def set_prop_def
        nth_append)


section \<open>The client: construction\<close>

lemma new_TruseraClient_test_client: "new_TruseraClient test_options = Inr test_client"
  by (simp add: new_TruseraClient_def test_options_def test_client_def startsWith_def
        startFlushTimer_def)

lemma new_TruseraClient_invalid_key:
  "\<exists>e. new_TruseraClient (test_options\<lparr>opt_apiKey := ''invalid_key''\<rparr>) = Inl e"
  by (simp add: new_TruseraClient_def test_options_def startsWith_def)

section \<open>The client: the parts of a flush\<close>

lemma delete_count_le: "delete_count d n \<le> n"
  by (cases d) simp_all

lemma splice0_eq:
  "splice0 xs d = (take (delete_count d (length xs)) xs, drop (delete_count d (length xs)) xs)"
  by (simp add: splice0_def Let_def)

lemma delete_count_cases:
  "delete_count d n =
     (case d of Finite x \<Rightarrow> (if x < 1 then 0 else min n (nat \<lfloor>x\<rfloor>))
      | NaN \<Rightarrow> 0 | PosInfinity \<Rightarrow> n | NegInfinity \<Rightarrow> 0)"
proof (cases d)
  case (Finite x)
  show ?thesis
  proof (cases "x < 1")
    case True
    then have "to_integer x \<le> 0"
      by (auto simp: to_integer_def ceiling_le_iff floor_le_iff)
    then show ?thesis using Finite True by simp
  next
    case False
    then have "to_integer x = \<lfloor>x\<rfloor>" "0 \<le> \<lfloor>x\<rfloor>" by (auto simp: to_integer_def)
    then show ?thesis using Finite False by (simp add: min_def) linarith
  qed
qed simp_all

lemma unshift_ok:
  "length batch \<le> limit \<Longrightarrow> unshift limit batch c = Inr (c\<lparr>eventQueue := batch @ eventQueue c\<rparr>)"
  by (simp add: unshift_def)

lemma unshift_throws:
  "limit < length batch \<Longrightarrow> unshift limit batch c = Inl (RangeError ''Maximum call stack size exceeded'')"
  by (simp add: unshift_def)

lemma flush_catch_ok:
  "length batch \<le> max_arguments w \<Longrightarrow>
     flush_catch e batch c w =
       (Inr (), c\<lparr>eventQueue := batch @ eventQueue c\<rparr>,
        w\<lparr>console := console w @ [NetworkErrorSending e]\<rparr>)"
  by (simp add: flush_catch_def unshift_ok)

lemma flush_catch_throws:
  "max_arguments w < length batch \<Longrightarrow>
     flush_catch e batch c w =
       (Inl (RangeError ''Maximum call stack size exceeded''), c,
        w\<lparr>console := console w @ [NetworkErrorSending e]\<rparr>)"
  by (simp add: flush_catch_def unshift_throws)

lemma flush_resume_ok: "ok r \<Longrightarrow> flush_resume (Resolves r) batch c w = (Inr (), c, w)"
  by (simp add: flush_resume_def flush_try_settled_def)

lemma flush_resume_failed:
  assumes "send_failed out" and "length batch \<le> max_arguments w"
  shows "\<exists>w'. flush_resume out batch c w = (Inr (), c\<lparr>eventQueue := batch @ eventQueue c\<rparr>, w')"
proof (cases out)
  case (Rejects e)
  then show ?thesis using assms(2) by (simp add: flush_resume_def flush_try_settled_def flush_catch_ok)
next
  case (Resolves r)
  then have nok: "\<not> ok r" using assms(1) by (simp add: send_failed_def)
  show ?thesis
  proof (cases "text_body r")
    case (Inl e)
    then show ?thesis using Resolves nok assms(2)
      by (simp add: flush_resume_def flush_try_settled_def flush_catch_ok)
  next
    case (Inr t)
    then show ?thesis using Resolves nok assms(2)
      by (simp add: flush_resume_def flush_try_settled_def unshift_ok)
  qed
qed

lemma flush_resume_lost:
  assumes "send_failed out" and "max_arguments w < length batch"
  shows "\<exists>w'. flush_resume out batch c w =
           (Inl (RangeError ''Maximum call stack size exceeded''), c, w')"
proof (cases out)
  case (Rejects e)
  then show ?thesis using assms(2)
    by (simp add: flush_resume_def flush_try_settled_def flush_catch_throws)
next
  case (Resolves r)
  then have nok: "\<not> ok r" using assms(1) by (simp add: send_failed_def)
  show ?thesis
  proof (cases "text_body r")
    case (Inl e)
    then show ?thesis using Resolves nok assms(2)
      by (simp add: flush_resume_def flush_try_settled_def flush_catch_throws)
  next
    case (Inr t)
    then show ?thesis using Resolves nok assms(2)
      by (simp add: flush_resume_def flush_try_settled_def unshift_throws flush_catch_throws)
  qed
qed

lemma flush_start_empty: "eventQueue c = [] \<Longrightarrow> flush_start S c w = (Returned, c, w)"
  by (simp add: flush_start_def)

lemma flush_start_calls:
  assumes "eventQueue c \<noteq> []"
    and "S (store w) (take (delete_count (batchSize c) (length (eventQueue c))) (eventQueue c)) = Inr b"
  shows "flush_start S c w =
       (Awaiting (take (delete_count (batchSize c) (length (eventQueue c))) (eventQueue c)),
        c\<lparr>eventQueue := drop (delete_count (batchSize c) (length (eventQueue c))) (eventQueue c)\<rparr>,
        w\<lparr>fetch_calls := fetch_calls w @
             [\<lparr>url = baseUrl c @ ''/api/v1/events/batch'',
               http_method = ''POST'',
               headers = [(''Content-Type'', ''application/json''),
                          (''Authorization'', ''Bearer '' @ apiKey c)],
               body = b\<rparr>]\<rparr>)"
  using assms by (simp add: flush_start_def splice0_eq flush_try_call_def)

lemma flush_start_throws:
  assumes "eventQueue c \<noteq> []"
    and "S (store w) (take (delete_count (batchSize c) (length (eventQueue c))) (eventQueue c)) = Inl e"
  shows "flush_start S c w =
       (case flush_catch e (take (delete_count (batchSize c) (length (eventQueue c))) (eventQueue c))
               (c\<lparr>eventQueue := drop (delete_count (batchSize c) (length (eventQueue c))) (eventQueue c)\<rparr>) w of
          (Inl e', c2, w2) \<Rightarrow> (Rejected e', c2, w2)
        | (Inr u, c2, w2) \<Rightarrow> (Returned, c2, w2))"
  using assms by (simp add: flush_start_def splice0_eq flush_try_call_def)

lemma flush_start_Awaiting:
  assumes "flush_start S c w = (Awaiting batch, c1, w1)"
  shows "eventQueue c \<noteq> [] \<and> batch @ eventQueue c1 = eventQueue c \<and>
         max_arguments w1 = max_arguments w \<and> store w1 = store w"
proof -
  have ne: "eventQueue c \<noteq> []" using assms by (auto simp: flush_start_def)
  let ?k = "delete_count (batchSize c) (length (eventQueue c))"
  show ?thesis
  proof (cases "S (store w) (take ?k (eventQueue c))")
    case (Inl e)
    have False
    proof (cases "max_arguments w < length (take ?k (eventQueue c))")
      case True
      then show False
        using assms flush_start_throws [of c S w e, OF ne Inl] by (simp add: flush_catch_throws)
    next
      case False
      then have "length (take ?k (eventQueue c)) \<le> max_arguments w" by (simp only: not_less)
      then show False
        using assms flush_start_throws [of c S w e, OF ne Inl] by (simp add: flush_catch_ok)
    qed
    then show ?thesis ..
  next
    case (Inr b)
    then show ?thesis using assms flush_start_calls [of c S w b, OF ne Inr] ne by auto
  qed
qed

lemma flush_start_effect:
  assumes "flush_start S c w = (p, c', w')"
  shows "store w' = store w \<and> max_arguments w' = max_arguments w \<and>
         isClosed c' = isClosed c \<and> flushTimer c' = flushTimer c \<and>
         ((\<forall>e. p \<noteq> Rejected e) \<longrightarrow> in_flight p @ eventQueue c' = eventQueue c) \<and>
         (length (eventQueue c) \<le> max_arguments w \<longrightarrow> (\<forall>e. p \<noteq> Rejected e))"
proof (cases "eventQueue c = []")
  case True
  then show ?thesis using assms by (auto simp: flush_start_empty)
next
  case ne: False
  let ?k = "delete_count (batchSize c) (length (eventQueue c))"
  show ?thesis
  proof (cases "S (store w) (take ?k (eventQueue c))")
    case (Inr b)
    then show ?thesis using assms flush_start_calls [of c S w b, OF ne Inr] by auto
  next
    case (Inl e)
    show ?thesis
    proof (cases "max_arguments w < length (take ?k (eventQueue c))")
      case True
      then have "\<not> length (eventQueue c) \<le> max_arguments w" by simp
      then show ?thesis
        using assms True flush_start_throws [of c S w e, OF ne Inl] by (auto simp: flush_catch_throws)
    next
      case False
      then have "length (take ?k (eventQueue c)) \<le> max_arguments w" by (simp only: not_less)
      then show ?thesis
        using assms flush_start_throws [of c S w e, OF ne Inl] by (auto simp: flush_catch_ok)
    qed
  qed
qed

lemma flush_start_taken:
  assumes "flush_start S c w = (p, c', w')"
  shows "\<exists>taken. taken @ eventQueue c' = eventQueue c \<and>
                 ((\<forall>e. p \<noteq> Rejected e) \<longrightarrow> taken = in_flight p)"
proof (cases "eventQueue c = []")
  case True
  then show ?thesis using assms by (auto simp: flush_start_empty)
next
  case ne: False
  let ?k = "delete_count (batchSize c) (length (eventQueue c))"
  show ?thesis
  proof (cases "S (store w) (take ?k (eventQueue c))")
    case (Inr b)
    then show ?thesis using assms flush_start_calls [of c S w b, OF ne Inr] by auto
  next
    case (Inl e)
    show ?thesis
    proof (cases "max_arguments w < length (take ?k (eventQueue c))")
      case True
      then have "p = Rejected (RangeError ''Maximum call stack size exceeded'')"
          "c' = c\<lparr>eventQueue := drop ?k (eventQueue c)\<rparr>"
        using assms flush_start_throws [of c S w e, OF ne Inl] by (simp_all add: flush_catch_throws)
      then have "take ?k (eventQueue c) @ eventQueue c' = eventQueue c \<and>
                 ((\<forall>e. p \<noteq> Rejected e) \<longrightarrow> take ?k (eventQueue c) = in_flight p)"
        by simp
      then show ?thesis by blast
    next
      case False
      then have "length (take ?k (eventQueue c)) \<le> max_arguments w" by (simp only: not_less)
      then have "p = Returned" "eventQueue c' = eventQueue c"
        using assms flush_start_throws [of c S w e, OF ne Inl] by (auto simp: flush_catch_ok)
      then have "[] @ eventQueue c' = eventQueue c \<and>
                 ((\<forall>e. p \<noteq> Rejected e) \<longrightarrow> [] = in_flight p)"
        by simp
      then show ?thesis by blast
    qed
  qed
qed

lemma flush_catch_effect:
  assumes "flush_catch e batch c w = (u, c', w')"
  shows "store w' = store w \<and> max_arguments w' = max_arguments w \<and> fetch_calls w' = fetch_calls w \<and>
         isClosed c' = isClosed c \<and> flushTimer c' = flushTimer c"
  using assms by (auto simp: flush_catch_def unshift_def Let_def split: if_splits)

lemma flush_resume_effect:
  assumes "flush_resume out batch c w = (u, c', w')"
  shows "store w' = store w \<and> max_arguments w' = max_arguments w \<and> fetch_calls w' = fetch_calls w \<and>
         isClosed c' = isClosed c \<and> flushTimer c' = flushTimer c"
proof (cases "flush_try_settled out batch c w")
  case (Pair t w1)
  have w1: "store w1 = store w \<and> max_arguments w1 = max_arguments w \<and> fetch_calls w1 = fetch_calls w"
    using Pair by (auto simp: flush_try_settled_def split: fetch_outcome.splits if_splits sum.splits)
  show ?thesis
  proof (cases t)
    case (Inl e)
    then have "flush_catch e batch c w1 = (u, c', w')" using assms Pair by (simp add: flush_resume_def)
    then show ?thesis using flush_catch_effect w1 by metis
  next
    case (Inr c1)
    then have c': "c' = c1" "w' = w1" using assms Pair by (simp_all add: flush_resume_def)
    have "isClosed c1 = isClosed c \<and> flushTimer c1 = flushTimer c"
      using Pair Inr
      by (auto simp: flush_try_settled_def unshift_def
               split: fetch_outcome.splits if_splits sum.splits)
    then show ?thesis using c' w1 by simp
  qed
qed

lemma flush_effect:
  assumes "flush S out c w = (u, c', w')"
  shows "store w' = store w \<and> max_arguments w' = max_arguments w \<and>
         isClosed c' = isClosed c \<and> flushTimer c' = flushTimer c"
proof (cases "flush_start S c w")
  case (fields p c1 w1)
  note se = flush_start_effect [OF fields]
  show ?thesis
  proof (cases p)
    case Returned
    then show ?thesis using assms fields se by (auto simp: flush_def)
  next
    case (Rejected e)
    then show ?thesis using assms fields se by (auto simp: flush_def)
  next
    case (Awaiting batch)
    then have "flush_resume out batch c1 w1 = (u, c', w')" using assms fields by (simp add: flush_def)
    then show ?thesis using flush_resume_effect se by metis
  qed
qed

section \<open>The client: tracking\<close>

text \<open>
  C9. For every open client and every event (an allocated object), \<^verbatim>\<open>track(event)\<close> returns
  normally and appends to the tail of the pending events a new object \<open>enriched\<close>, a copy of
  the event whose \<open>metadata\<close> is a new object \<open>md\<close>: the event's metadata with \<open>agent_id\<close> set
  to the client's current agent identifier (\<^verbatim>\<open>undefined\<close> when it has none) and
  \<open>sdk_version\<close> set to \<open>0.1.0\<close>. The queue that \<open>track\<close> leaves is the old queue with
  \<open>enriched\<close> at its tail, less what the flush that \<open>track\<close> itself starts when the batch size
  is reached has taken from the head: the batch in flight, unless that flush is rejected,
  which it is not when the queue is shorter than the engine's argument limit. Below the
  batch size nothing is taken. No object that existed before the call is changed, so
  every field of the caller's event reads as before.
\<close>

theorem track_enqueues_enriched_copy:
  assumes "\<not> isClosed c" and "event < length (store w)"
    and "track S event c w = (r, c', w')"
    and "md = length (store w)" and "enriched = Suc (length (store w))"
  shows "(\<exists>p taken. r = Inr p \<and>
              taken @ eventQueue c' = eventQueue c @ [enriched] \<and>
              ((\<forall>e. p \<noteq> Rejected e) \<longrightarrow> taken = in_flight p) \<and>
              (length (eventQueue c) < max_arguments w \<longrightarrow> (\<forall>e. p \<noteq> Rejected e))) \<and>
         (batchSize c = NaN \<or> batchSize c = PosInfinity \<or>
          (\<exists>x. batchSize c = Finite x \<and> real (length (eventQueue c)) + 1 < x) \<longrightarrow>
            r = Inr Returned \<and> eventQueue c' = eventQueue c @ [enriched]) \<and>
         store w' = store w @
             [(spread (store w) (get_prop (store w) (JObj event) ''metadata''))
                (''agent_id'' \<mapsto> (case agentId c of None \<Rightarrow> JUndefined | Some a \<Rightarrow> JStr a),
                 ''sdk_version'' \<mapsto> JStr ''0.1.0''),
              (props (store w) event)(''metadata'' \<mapsto> JObj md)] \<and>
         props (store w') enriched = (props (store w) event)(''metadata'' \<mapsto> JObj md) \<and>
         props (store w') md =
           (spread (store w) (get_prop (store w) (JObj event) ''metadata''))
             (''agent_id'' \<mapsto> (case agentId c of None \<Rightarrow> JUndefined | Some a \<Rightarrow> JStr a),
              ''sdk_version'' \<mapsto> JStr ''0.1.0'') \<and>
         get_prop (store w') (JObj enriched) ''metadata'' = JObj md \<and>
         (\<forall>a. agentId c = Some a \<longrightarrow> get_prop (store w') (JObj md) ''agent_id'' = JStr a) \<and>
         (agentId c = None \<longrightarrow> get_prop (store w') (JObj md) ''agent_id'' = JUndefined) \<and>
         get_prop (store w') (JObj md) ''sdk_version'' = JStr ''0.1.0'' \<and>
         (\<forall>k. k \<noteq> ''agent_id'' \<and> k \<noteq> ''sdk_version'' \<longrightarrow>
              get_prop (store w') (JObj md) k
                = get_prop (store w) (get_prop (store w) (JObj event) ''metadata'') k) \<and>
         (\<forall>k. k \<noteq> ''metadata'' \<longrightarrow>
              get_prop (store w') (JObj enriched) k = get_prop (store w) (JObj event) k) \<and>
         (\<forall>a < length (store w). props (store w') a = props (store w) a) \<and>
         (\<forall>k. get_prop (store w') (JObj event) k = get_prop (store w) (JObj event) k)"
proof -
  let ?h = "store w"
  let ?aid = "case agentId c of None \<Rightarrow> JUndefined | Some a \<Rightarrow> JStr a"
  let ?mo = "(spread ?h (get_prop ?h (JObj event) ''metadata''))
                (''agent_id'' \<mapsto> ?aid, ''sdk_version'' \<mapsto> JStr ''0.1.0'')"
  let ?eo = "(props ?h event)(''metadata'' \<mapsto> JObj md)"
  let ?c1 = "c\<lparr>eventQueue := eventQueue c @ [enriched]\<rparr>"
  let ?w1 = "w\<lparr>store := ?h @ [?mo, ?eo]\<rparr>"
  have sp: "spread (?h @ [?mo]) (JObj event) = props ?h event"
    using assms(2) by (simp add: props_alloc_old)
  have tr: "track S event c w =
     (if length_ge (length (eventQueue ?c1)) (batchSize ?c1)
      then (let (p, c2, w2) = flush_start S ?c1 ?w1 in (Inr p, c2, w2))
      else (Inr Returned, ?c1, ?w1))"
    using assms(1,4,5) sp by (simp add: track_def alloc_def Let_def del: spread.simps)
  obtain p c2 w2 where fs: "flush_start S ?c1 ?w1 = (p, c2, w2)" by (meson prod_cases3)
  note se = flush_start_effect [OF fs]
  have q: "\<exists>p taken. r = Inr p \<and>
              taken @ eventQueue c' = eventQueue c @ [enriched] \<and>
              ((\<forall>e. p \<noteq> Rejected e) \<longrightarrow> taken = in_flight p) \<and>
              (length (eventQueue c) < max_arguments w \<longrightarrow> (\<forall>e. p \<noteq> Rejected e))"
  proof (cases "length_ge (length (eventQueue ?c1)) (batchSize ?c1)")
    case True
    then have rc: "r = Inr p" "c' = c2" using tr fs assms(3) by simp_all
    obtain taken where tk: "taken @ eventQueue c2 = eventQueue ?c1"
        "(\<forall>e. p \<noteq> Rejected e) \<longrightarrow> taken = in_flight p"
      using flush_start_taken [OF fs] by blast
    have nr: "length (eventQueue c) < max_arguments w \<longrightarrow> (\<forall>e. p \<noteq> Rejected e)"
      using se by auto
    have "r = Inr p \<and> taken @ eventQueue c' = eventQueue c @ [enriched] \<and>
              ((\<forall>e. p \<noteq> Rejected e) \<longrightarrow> taken = in_flight p) \<and>
              (length (eventQueue c) < max_arguments w \<longrightarrow> (\<forall>e. p \<noteq> Rejected e))"
      using rc tk nr by simp
    then show ?thesis by blast
  next
    case False
    then have "r = Inr Returned" "c' = ?c1" using tr assms(3) by simp_all
    then have "r = Inr Returned \<and> [] @ eventQueue c' = eventQueue c @ [enriched] \<and>
              ((\<forall>e. Returned \<noteq> Rejected e) \<longrightarrow> [] = in_flight Returned) \<and>
              (length (eventQueue c) < max_arguments w \<longrightarrow> (\<forall>e. Returned \<noteq> Rejected e))"
      by simp
    then show ?thesis by blast
  qed
  have small: "r = Inr Returned \<and> eventQueue c' = eventQueue c @ [enriched]"
    if "batchSize c = NaN \<or> batchSize c = PosInfinity \<or>
          (\<exists>x. batchSize c = Finite x \<and> real (length (eventQueue c)) + 1 < x)"
  proof -
    have "\<not> length_ge (length (eventQueue ?c1)) (batchSize ?c1)" using that by auto
    then have "r = Inr Returned" "c' = ?c1" using tr assms(3) by simp_all
    then show ?thesis by simp
  qed
  have st: "store w' = ?h @ [?mo, ?eo]"
  proof (cases "length_ge (length (eventQueue ?c1)) (batchSize ?c1)")
    case True
    then have "w' = w2" using tr fs assms(3) by simp
    then show ?thesis using se by simp
  next
    case False
    then have "w' = ?w1" using tr assms(3) by simp
    then show ?thesis by simp
  qed
  have pe: "props (store w') enriched = ?eo"
    using st assms(5) by (simp add: props_def nth_append)
  have pm: "props (store w') md = ?mo"
    using st assms(4) by (simp add: props_def nth_append)
  have old: "\<forall>a < length ?h. props (store w') a = props ?h a"
    using st by (simp add: props_def nth_append)
  have ev: "\<forall>k. get_prop (store w') (JObj event) k = get_prop ?h (JObj event) k"
    using old assms(2) by simp
  have gm: "get_prop (store w') (JObj enriched) ''metadata'' = JObj md"
    using pe by simp
  have ga: "\<forall>a. agentId c = Some a \<longrightarrow> get_prop (store w') (JObj md) ''agent_id'' = JStr a"
    using pm by simp
  have gn: "agentId c = None \<longrightarrow> get_prop (store w') (JObj md) ''agent_id'' = JUndefined"
    using pm by simp
  have gv: "get_prop (store w') (JObj md) ''sdk_version'' = JStr ''0.1.0''"
    using pm by simp
  have gk: "\<forall>k. k \<noteq> ''agent_id'' \<and> k \<noteq> ''sdk_version'' \<longrightarrow>
              get_prop (store w') (JObj md) k = get_prop ?h (get_prop ?h (JObj event) ''metadata'') k"
  proof (intro allI impI)
    fix k assume k: "k \<noteq> ''agent_id'' \<and> k \<noteq> ''sdk_version''"
    show "get_prop (store w') (JObj md) k = get_prop ?h (get_prop ?h (JObj event) ''metadata'') k"
      using pm k by (cases "get_prop ?h (JObj event) ''metadata''") (simp_all del: get_prop.simps add: get_prop.simps(1) get_prop.simps(2-))
  qed
  have ge: "\<forall>k. k \<noteq> ''metadata'' \<longrightarrow>
              get_prop (store w') (JObj enriched) k = get_prop ?h (JObj event) k"
    using pe by simp
  show ?thesis by (intro conjI q st pe pm gm ga gn gv gk ge old ev impI small)
qed

theorem track_enqueues_enriched_copy_witness:
  "\<not> isClosed (test_client\<lparr>agentId := Some ''agent-123''\<rparr>) \<and> 2 < length (store tracked_world) \<and>
   eventQueue (fst (snd (track stringify_ok 2 (test_client\<lparr>agentId := Some ''agent-123''\<rparr>) tracked_world)))
     = [4] \<and>
   get_prop (store (snd (snd (track stringify_ok 2 (test_client\<lparr>agentId := Some ''agent-123''\<rparr>) tracked_world))))
     (JObj 4) ''metadata'' = JObj 3 \<and>
   get_prop (store (snd (snd (track stringify_ok 2 (test_client\<lparr>agentId := Some ''agent-123''\<rparr>) tracked_world))))
     (JObj 3) ''agent_id'' = JStr ''agent-123'' \<and>
   get_prop (store (snd (snd (track stringify_ok 2 (test_client\<lparr>agentId := Some ''agent-123''\<rparr>) tracked_world))))
     (JObj 3) ''session_id'' = JStr ''abc-123'' \<and>
   get_prop (store (snd (snd (track stringify_ok 2 (test_client\<lparr>agentId := Some ''agent-123''\<rparr>) tracked_world))))
     (JObj 3) ''sdk_version'' = JStr ''0.1.0''"
proof -
  let ?c = "test_client\<lparr>agentId := Some ''agent-123''\<rparr>"
  let ?t = "track stringify_ok 2 ?c tracked_world"
  have o: "\<not> isClosed ?c" by (simp add: test_client_def)
  have e: "2 < length (store tracked_world)" by (simp add: tracked_world_def)
  have t: "?t = (fst ?t, fst (snd ?t), snd (snd ?t))" by simp
  have q: "eventQueue ?c = []" "batchSize ?c = Finite 100" "length (store tracked_world) = 3"
          "agentId ?c = Some ''agent-123''"
    by (simp_all add: test_client_def tracked_world_def)
  have m: "get_prop (store tracked_world) (JObj 1) ''session_id'' = JStr ''abc-123''"
          "get_prop (store tracked_world) (JObj 2) ''metadata'' = JObj 1"
    by (simp_all add: tracked_world_def props_def)
  note T = track_enqueues_enriched_copy [OF o e t refl refl]
  note T2 = T [THEN conjunct2]
  note T6 = T2 [THEN conjunct2, THEN conjunct2, THEN conjunct2, THEN conjunct2]
  note T7 = T6 [THEN conjunct2]
  note T9 = T7 [THEN conjunct2, THEN conjunct2]
  note T10 = T9 [THEN conjunct2]
  have s: "batchSize ?c = NaN \<or> batchSize ?c = PosInfinity \<or>
          (\<exists>x. batchSize ?c = Finite x \<and> real (length (eventQueue ?c)) + 1 < x)"
    using q(1,2) by simp
  have A: "eventQueue (fst (snd ?t)) = eventQueue ?c @ [Suc (length (store tracked_world))]"
    using T2 [THEN conjunct1, rule_format, OF s] by (rule conjunct2)
  have B: "get_prop (store (snd (snd ?t))) (JObj (Suc (length (store tracked_world)))) ''metadata''
             = JObj (length (store tracked_world))"
    using T6 by (rule conjunct1)
  have C: "get_prop (store (snd (snd ?t))) (JObj (length (store tracked_world))) ''agent_id''
             = JStr ''agent-123''"
    using T7 [THEN conjunct1, rule_format, OF q(4)] .
  have D: "get_prop (store (snd (snd ?t))) (JObj (length (store tracked_world))) ''sdk_version''
             = JStr ''0.1.0''"
    using T9 by (rule conjunct1)
  have K: "''session_id'' \<noteq> ''agent_id'' \<and> ''session_id'' \<noteq> ''sdk_version''" by simp
  have E: "get_prop (store (snd (snd ?t))) (JObj (length (store tracked_world))) ''session_id''
             = get_prop (store tracked_world) (get_prop (store tracked_world) (JObj 2) ''metadata'')
                 ''session_id''"
    using T10 [THEN conjunct1, rule_format, OF K] .
  have A': "eventQueue (fst (snd ?t)) = [4]" using A q(1,3) by simp
  have B': "get_prop (store (snd (snd ?t))) (JObj 4) ''metadata'' = JObj 3"
    using B q(3) by (simp del: get_prop.simps)
  have C': "get_prop (store (snd (snd ?t))) (JObj 3) ''agent_id'' = JStr ''agent-123''"
    using C q(3) by (simp del: get_prop.simps)
  have D': "get_prop (store (snd (snd ?t))) (JObj 3) ''sdk_version'' = JStr ''0.1.0''"
    using D q(3) by (simp del: get_prop.simps)
  have E': "get_prop (store (snd (snd ?t))) (JObj 3) ''session_id'' = JStr ''abc-123''"
    using E q(3) m by (simp del: get_prop.simps)
  from o e A' B' C' D' E' show ?thesis by (intro conjI)
qed

text \<open>
  The auto-flush of the test suite: with a batch size of 2 and one event pending, tracking
  a second event calls \<^verbatim>\<open>fetch\<close> before \<^verbatim>\<open>track\<close> returns, and both events are in flight,
  not in the queue.
\<close>

lemma track_auto_flush_example:
  "fst (track stringify_ok 2 (test_client\<lparr>batchSize := Finite 2, eventQueue := [7]\<rparr>) tracked_world)
     = Inr (Awaiting [7, 4]) \<and>
   eventQueue (fst (snd
     (track stringify_ok 2 (test_client\<lparr>batchSize := Finite 2, eventQueue := [7]\<rparr>) tracked_world))) = [] \<and>
   length (fetch_calls (snd (snd
     (track stringify_ok 2 (test_client\<lparr>batchSize := Finite 2, eventQueue := [7]\<rparr>) tracked_world)))) = 1"
  by (simp add: track_def alloc_def Let_def flush_start_def splice0_def flush_try_call_def
        to_integer_def test_client_def tracked_world_def)

section \<open>The client: flushing\<close>

text \<open>
  C1, as the code has it. A flush that has called \<^verbatim>\<open>fetch\<close> holds the batch it removed
  from the head of the queue. If the send fails (a response that is not 2xx, or a network
  error) and the batch is within the engine's argument limit, the batch is put back in
  front of the queue as it stands when the failure is handled, in its original order, and
  the promise of \<^verbatim>\<open>flush()\<close> is fulfilled, not rejected. When nothing else ran on the client
  while the send was in flight, the client after the flush is the client before it: the
  queue is restored and \<^verbatim>\<open>getQueueSize()\<close> is unchanged.
\<close>

theorem flush_failure_requeues:
  assumes "eventQueue c \<noteq> []" and "send_failed out"
    and "flush_start S c w = (Awaiting batch, c1, w1)"
  shows "batch @ eventQueue c1 = eventQueue c \<and>
         (\<forall>c2 w2. length batch \<le> max_arguments w2 \<longrightarrow>
            fst (flush_resume out batch c2 w2) = Inr () \<and>
            fst (snd (flush_resume out batch c2 w2)) = c2\<lparr>eventQueue := batch @ eventQueue c2\<rparr>) \<and>
         (length batch \<le> max_arguments w \<longrightarrow>
            fst (flush S out c w) = Inr () \<and>
            fst (snd (flush S out c w)) = c \<and>
            eventQueue (fst (snd (flush S out c w))) = eventQueue c \<and>
            getQueueSize (fst (snd (flush S out c w))) = getQueueSize c)"
proof -
  note a = flush_start_Awaiting [OF assms(3)]
  have head: "batch @ eventQueue c1 = eventQueue c" using a by simp
  have parts: "fst (flush_resume out batch c2 w2) = Inr () \<and>
            fst (snd (flush_resume out batch c2 w2)) = c2\<lparr>eventQueue := batch @ eventQueue c2\<rparr>"
    if "length batch \<le> max_arguments w2" for c2 w2
    using flush_resume_failed [OF assms(2) that, of c2] by auto
  have c1: "c1 = c\<lparr>eventQueue := eventQueue c1\<rparr>"
    using assms(3) a by (auto simp: flush_start_def splice0_eq Let_def split: sum.splits prod.splits)
  have whole: "fst (flush S out c w) = Inr () \<and>
            fst (snd (flush S out c w)) = c \<and>
            eventQueue (fst (snd (flush S out c w))) = eventQueue c \<and>
            getQueueSize (fst (snd (flush S out c w))) = getQueueSize c"
    if l: "length batch \<le> max_arguments w"
  proof -
    have "length batch \<le> max_arguments w1" using l a by simp
    then obtain w' where
      "flush_resume out batch c1 w1 = (Inr (), c1\<lparr>eventQueue := batch @ eventQueue c1\<rparr>, w')"
      using flush_resume_failed [OF assms(2)] by blast
    moreover have "c1\<lparr>eventQueue := batch @ eventQueue c1\<rparr> = c"
      using head c1 by (metis TruseraClient.surjective TruseraClient.update_convs(7) TruseraClient.select_convs(7))
    ultimately have "flush S out c w = (Inr (), c, w')" using assms(3) by (simp add: flush_def)
    then show ?thesis by simp
  qed
  from head parts whole show ?thesis by blast
qed

theorem flush_failure_requeues_witness:
  "eventQueue (test_client\<lparr>eventQueue := [4, 7]\<rparr>) \<noteq> [] \<and>
   send_failed server_error \<and>
   fst (flush_start stringify_ok (test_client\<lparr>eventQueue := [4, 7]\<rparr>) empty_world) = Awaiting [4, 7] \<and>
   length [4::nat, 7] \<le> max_arguments empty_world \<and>
   fst (flush stringify_ok server_error (test_client\<lparr>eventQueue := [4, 7]\<rparr>) empty_world) = Inr () \<and>
   eventQueue (fst (snd (flush stringify_ok server_error (test_client\<lparr>eventQueue := [4, 7]\<rparr>) empty_world)))
     = [4, 7]"
proof -
  let ?c = "test_client\<lparr>eventQueue := [4, 7]\<rparr>"
  let ?s = "flush_start stringify_ok ?c empty_world"
  have q: "eventQueue ?c \<noteq> []" by simp
  have f: "send_failed server_error" by (simp add: send_failed_def server_error_def ok_def)
  have b: "fst ?s = Awaiting [4, 7]"
    by (simp add: flush_start_def splice0_def flush_try_call_def to_integer_def test_client_def)
  have s: "?s = (Awaiting [4, 7], fst (snd ?s), snd (snd ?s))"
    using b by (metis prod.collapse)
  have l: "length [4::nat, 7] \<le> max_arguments empty_world" by (simp add: empty_world_def)
  note T = flush_failure_requeues [OF q f s, THEN conjunct2, THEN conjunct2, rule_format, OF l]
  have r: "fst (flush stringify_ok server_error ?c empty_world) = Inr ()"
    using T by (rule conjunct1)
  have e: "eventQueue (fst (snd (flush stringify_ok server_error ?c empty_world))) = eventQueue ?c"
    using T [THEN conjunct2, THEN conjunct2] by (rule conjunct1)
  have e': "eventQueue (fst (snd (flush stringify_ok server_error ?c empty_world))) = [4, 7]"
    using e by simp
  from q f b l r e' show ?thesis by (intro conjI)
qed

text \<open>
  C1 as stated fails when flushes overlap. With four events queued and a batch size of
  two, a second flush started while the first is in flight takes the next two events; when
  both sends fail, each batch is put back at the head as the queue then stands, and the
  queue ends as \<open>[10, 13, 4, 7]\<close>, not in its original order. After the first failed flush
  the queue holds two events, where it held four before that flush.
\<close>

theorem flush_overlapping_failures_counterexample:
  "eventQueue (fst overlap_0) = [4, 7, 10, 13] \<and>
   fst (flush_start stringify_ok (fst overlap_0) (snd overlap_0)) = Awaiting [4, 7] \<and>
   fst (flush_start stringify_ok (fst overlap_1) (snd overlap_1)) = Awaiting [10, 13] \<and>
   send_failed server_error \<and>
   fst (flush_resume server_error [4, 7] (fst overlap_2) (snd overlap_2)) = Inr () \<and>
   getQueueSize (fst overlap_3) = 2 \<and>
   fst (flush_resume server_error [10, 13] (fst overlap_3) (snd overlap_3)) = Inr () \<and>
   eventQueue (fst overlap_4) = [10, 13, 4, 7]"
  by (simp add: overlap_4_def overlap_3_def overlap_2_def overlap_1_def overlap_0_def
        server_error_def send_failed_def ok_def getQueueSize_def
        flush_start_def splice0_def flush_try_call_def to_integer_def Let_def
        flush_resume_def flush_try_settled_def unshift_def
        test_client_def empty_world_def)

text \<open>
  Beyond the argument limit the failure path itself fails: \<^verbatim>\<open>unshift(...batch)\<close> throws in
  the \<^verbatim>\<open>try\<close> block and again in the handler, the promise of \<^verbatim>\<open>flush()\<close> is rejected with the
  \<^verbatim>\<open>RangeError\<close>, and the batch is in neither the queue nor a request.
\<close>

lemma flush_failure_beyond_argument_limit:
  assumes "send_failed out" and "flush_start S c w = (Awaiting batch, c1, w1)"
    and "max_arguments w < length batch"
  shows "fst (flush S out c w) = Inl (RangeError ''Maximum call stack size exceeded'') \<and>
         fst (snd (flush S out c w)) = c1 \<and> batch @ eventQueue c1 = eventQueue c"
proof -
  note a = flush_start_Awaiting [OF assms(2)]
  have "max_arguments w1 < length batch" using assms(3) a by simp
  then obtain w' where
    "flush_resume out batch c1 w1 = (Inl (RangeError ''Maximum call stack size exceeded''), c1, w')"
    using flush_resume_lost [OF assms(1)] by blast
  then have "flush S out c w = (Inl (RangeError ''Maximum call stack size exceeded''), c1, w')"
    using assms(2) by (simp add: flush_def)
  then show ?thesis using a by simp
qed

text \<open>
  C7, as the code has it. \<^verbatim>\<open>flush()\<close> on an empty queue does nothing: no call of
  \<^verbatim>\<open>fetch\<close>. On a non-empty queue of length \<open>n\<close> it removes \<open>k\<close> events from the head, the
  oldest, in order, where \<open>k\<close> is the batch size with its fraction dropped, clamped to
  \<open>0 .. n\<close>: \<open>min n batchSize\<close> for a batch size that is a natural number, \<open>0\<close> for one that
  is below 1, negative or \<^verbatim>\<open>NaN\<close>, and \<open>n\<close> for \<^verbatim>\<open>Infinity\<close>. When the batch can be serialised
  it sends them in one request, a \<^verbatim>\<open>POST\<close> to the batch endpoint whose body is the
  serialised batch. On a 2xx response nothing is put back, whatever the queue holds by
  then; so when nothing else ran on the client while the send was in flight, the queue is
  left with \<open>n - k\<close> events.
\<close>

theorem flush_sends_batch:
  assumes n: "n = length (eventQueue c)"
    and k: "k = (case batchSize c of
                   Finite x \<Rightarrow> (if x < 1 then 0 else min n (nat \<lfloor>x\<rfloor>))
                 | NaN \<Rightarrow> 0 | PosInfinity \<Rightarrow> n | NegInfinity \<Rightarrow> 0)"
  shows "(eventQueue c = [] \<longrightarrow> flush S out c w = (Inr (), c, w)) \<and>
         (\<forall>m. batchSize c = Finite (real m) \<longrightarrow> k = min n m) \<and>
         (eventQueue c \<noteq> [] \<longrightarrow> S (store w) (take k (eventQueue c)) = Inr b \<longrightarrow>
            flush_start S c w =
              (Awaiting (take k (eventQueue c)), c\<lparr>eventQueue := drop k (eventQueue c)\<rparr>,
               w\<lparr>fetch_calls := fetch_calls w @
                    [\<lparr>url = baseUrl c @ ''/api/v1/events/batch'',
                      http_method = ''POST'',
                      headers = [(''Content-Type'', ''application/json''),
                                 (''Authorization'', ''Bearer '' @ apiKey c)],
                      body = b\<rparr>]\<rparr>) \<and>
            (ok r \<longrightarrow>
               (\<forall>c2 w2. flush_resume (Resolves r) (take k (eventQueue c)) c2 w2 = (Inr (), c2, w2)) \<and>
               flush S (Resolves r) c w =
                 (Inr (), c\<lparr>eventQueue := drop k (eventQueue c)\<rparr>,
                  w\<lparr>fetch_calls := fetch_calls w @
                       [\<lparr>url = baseUrl c @ ''/api/v1/events/batch'',
                         http_method = ''POST'',
                         headers = [(''Content-Type'', ''application/json''),
                                    (''Authorization'', ''Bearer '' @ apiKey c)],
                         body = b\<rparr>]\<rparr>) \<and>
               getQueueSize (fst (snd (flush S (Resolves r) c w))) = n - k))"
proof -
  have kd: "k = delete_count (batchSize c) (length (eventQueue c))"
    using k unfolding n by (simp add: delete_count_cases)
  have e: "eventQueue c = [] \<longrightarrow> flush S out c w = (Inr (), c, w)"
    by (simp add: flush_def flush_start_empty)
  have m: "\<forall>m. batchSize c = Finite (real m) \<longrightarrow> k = min n m"
  proof (intro allI impI)
    fix m assume "batchSize c = Finite (real m)"
    then show "k = min n m" using k by (cases "m = 0") auto
  qed
  have s: "flush_start S c w =
              (Awaiting (take k (eventQueue c)), c\<lparr>eventQueue := drop k (eventQueue c)\<rparr>,
               w\<lparr>fetch_calls := fetch_calls w @
                    [\<lparr>url = baseUrl c @ ''/api/v1/events/batch'',
                      http_method = ''POST'',
                      headers = [(''Content-Type'', ''application/json''),
                                 (''Authorization'', ''Bearer '' @ apiKey c)],
                      body = b\<rparr>]\<rparr>)"
    if "eventQueue c \<noteq> []" "S (store w) (take k (eventQueue c)) = Inr b"
    using flush_start_calls [of c S w b] that kd by simp
  have p: "\<forall>c2 w2. flush_resume (Resolves r) (take k (eventQueue c)) c2 w2 = (Inr (), c2, w2)"
    if "ok r"
    using that by (simp add: flush_resume_ok)
  have f: "flush S (Resolves r) c w =
                 (Inr (), c\<lparr>eventQueue := drop k (eventQueue c)\<rparr>,
                  w\<lparr>fetch_calls := fetch_calls w @
                       [\<lparr>url = baseUrl c @ ''/api/v1/events/batch'',
                         http_method = ''POST'',
                         headers = [(''Content-Type'', ''application/json''),
                                    (''Authorization'', ''Bearer '' @ apiKey c)],
                         body = b\<rparr>]\<rparr>)"
    if "eventQueue c \<noteq> []" "S (store w) (take k (eventQueue c)) = Inr b" "ok r"
    using s [OF that(1,2)] that(3) by (simp add: flush_def flush_resume_ok)
  have g: "getQueueSize (fst (snd (flush S (Resolves r) c w))) = n - k"
    if "eventQueue c \<noteq> []" "S (store w) (take k (eventQueue c)) = Inr b" "ok r"
    using f [OF that] n by (simp add: getQueueSize_def)
  show ?thesis
    by (intro conjI e m impI s p f g)
qed

theorem flush_sends_batch_witness:
  "fst (flush stringify_ok (Resolves \<lparr>status = 200, text_body = Inr ''''\<rparr>)
     (test_client\<lparr>batchSize := Finite 2, eventQueue := [4, 7, 10, 13, 16]\<rparr>) empty_world) = Inr () \<and>
   eventQueue (fst (snd (flush stringify_ok (Resolves \<lparr>status = 200, text_body = Inr ''''\<rparr>)
     (test_client\<lparr>batchSize := Finite 2, eventQueue := [4, 7, 10, 13, 16]\<rparr>) empty_world)))
     = [10, 13, 16] \<and>
   fetch_calls (snd (snd (flush stringify_ok (Resolves \<lparr>status = 200, text_body = Inr ''''\<rparr>)
     (test_client\<lparr>batchSize := Finite 2, eventQueue := [4, 7, 10, 13, 16]\<rparr>) empty_world)))
     = [\<lparr>url = ''https://api.trusera.io/api/v1/events/batch'', http_method = ''POST'',
         headers = [(''Content-Type'', ''application/json''),
                    (''Authorization'', ''Bearer tsk_test123'')],
         body = ''{}''\<rparr>]"
proof -
  let ?c = "test_client\<lparr>batchSize := Finite 2, eventQueue := [4, 7, 10, 13, 16]\<rparr>"
  let ?r = "\<lparr>status = 200, text_body = Inr ''''\<rparr>"
  have n: "(5::nat) = length (eventQueue ?c)" by simp
  have k: "(2::nat) = (case batchSize ?c of
                   Finite x \<Rightarrow> (if x < 1 then 0 else min 5 (nat \<lfloor>x\<rfloor>))
                 | NaN \<Rightarrow> 0 | PosInfinity \<Rightarrow> 5 | NegInfinity \<Rightarrow> 0)" by simp
  have q: "eventQueue ?c \<noteq> []" by simp
  have b: "stringify_ok (store empty_world) (take 2 (eventQueue ?c)) = Inr ''{}''" by simp
  have o: "ok ?r" by (simp add: ok_def)
  note T = flush_sends_batch [OF n k, of stringify_ok _ empty_world "''{}''" ?r,
      THEN conjunct2, THEN conjunct2, rule_format, OF q b, THEN conjunct2, rule_format, OF o,
      THEN conjunct2, THEN conjunct1]
  show ?thesis using T by (simp add: test_client_def empty_world_def)
qed

text \<open>
  C7 as stated fails in three places. With a batch size of \<open>-1\<close> and one pending event,
  \<^verbatim>\<open>splice(0, -1)\<close> removes nothing and a successful flush leaves one event, where
  \<open>n - min n batchSize\<close> is two. When \<^verbatim>\<open>JSON.stringify\<close> throws on the batch, no request is
  sent at all. And with a batch size of \<open>2.5\<close> and three pending events, two are removed
  and one is left, where \<open>n - min n batchSize\<close> is one half.
\<close>

theorem flush_negative_batchSize_counterexample:
  "real (getQueueSize (fst (snd (flush stringify_ok (Resolves \<lparr>status = 200, text_body = Inr ''''\<rparr>)
        (test_client\<lparr>batchSize := Finite (- 1), eventQueue := [4]\<rparr>) empty_world))))
     \<noteq> real (length [4::nat]) - min (real (length [4::nat])) (- 1) \<and>
   fetch_calls (snd (snd (flush stringify_throws
        (Resolves \<lparr>status = 200, text_body = Inr ''''\<rparr>)
        (test_client\<lparr>eventQueue := [4]\<rparr>) empty_world))) = [] \<and>
   real (getQueueSize (fst (snd (flush stringify_ok (Resolves \<lparr>status = 200, text_body = Inr ''''\<rparr>)
        (test_client\<lparr>batchSize := Finite (5 / 2), eventQueue := [4, 7, 10]\<rparr>) empty_world))))
     \<noteq> real (length [4::nat, 7, 10]) - min (real (length [4::nat, 7, 10])) (5 / 2)"
  by (simp add: Let_def flush_def flush_start_def splice0_def flush_try_call_def flush_resume_def
        flush_try_settled_def flush_catch_def unshift_def to_integer_def ok_def getQueueSize_def
        test_client_def empty_world_def)

section \<open>The client: after close\<close>

lemma track_closed: "isClosed c \<Longrightarrow> track S event c w = (Inl (Error ''Cannot track events on closed client''), c, w)"
  by (simp add: track_def)

lemma stopFlushTimer_eq: "stopFlushTimer c = c\<lparr>flushTimer := None\<rparr>"
  by (cases "flushTimer c") (simp_all add: stopFlushTimer_def)

lemma close_eq: "close S out c w = flush S out (c\<lparr>isClosed := True, flushTimer := None\<rparr>) w"
  by (simp add: close_def stopFlushTimer_eq)

lemma close_start_eq: "close_start S c w = flush_start S (c\<lparr>isClosed := True, flushTimer := None\<rparr>) w"
  by (simp add: close_start_def stopFlushTimer_eq)

lemma close_isClosed: "close S out c w = (r, c', w') \<Longrightarrow> isClosed c'"
  using flush_effect [of S out "c\<lparr>isClosed := True, flushTimer := None\<rparr>" w r c' w']
  by (simp add: close_eq)

lemma later_state_closed: "later_state c c' \<Longrightarrow> isClosed c \<Longrightarrow> isClosed c'"
proof (induction rule: later_state.induct)
  case (later_refl c)
  then show ?case by simp
next
  case (later_track c c1 S event w r c2 w2)
  then show ?case by (simp add: track_closed)
next
  case (later_flush_start c c1 S w p c2 w2)
  then show ?case using flush_start_effect by blast
next
  case (later_flush_resume c c1 out batch w u c2 w2)
  then show ?case using flush_resume_effect by blast
next
  case (later_close c c1 S out w u c2 w2)
  then show ?case using close_isClosed by blast
next
  case (later_register c c1 a)
  then show ?case by simp
qed

text \<open>
  C6. Once \<^verbatim>\<open>close()\<close> has completed on a client, every later call of \<^verbatim>\<open>track(event)\<close>,
  whatever the client did in between, throws the closed-client error and leaves the client
  and the world as they were: nothing is enqueued and \<^verbatim>\<open>getQueueSize()\<close> is unchanged.
\<close>

theorem track_after_close_fails:
  assumes "close S out c0 w0 = (r, c1, w1)" and "later_state c1 c"
  shows "track S' event c w = (Inl (Error ''Cannot track events on closed client''), c, w) \<and>
         getQueueSize (fst (snd (track S' event c w))) = getQueueSize c"
proof -
  have "isClosed c" using assms close_isClosed later_state_closed by blast
  then show ?thesis by (simp add: track_closed)
qed

theorem track_after_close_fails_witness:
  "close stringify_ok (Rejects (Error ''down'')) test_client empty_world
     = (Inr (), test_client\<lparr>isClosed := True, flushTimer := None\<rparr>, empty_world) \<and>
   later_state (test_client\<lparr>isClosed := True, flushTimer := None\<rparr>)
     (test_client\<lparr>isClosed := True, flushTimer := None\<rparr>) \<and>
   track stringify_ok 0 (test_client\<lparr>isClosed := True, flushTimer := None\<rparr>) empty_world
     = (Inl (Error ''Cannot track events on closed client''),
        test_client\<lparr>isClosed := True, flushTimer := None\<rparr>, empty_world)"
proof -
  have c: "close stringify_ok (Rejects (Error ''down'')) test_client empty_world
     = (Inr (), test_client\<lparr>isClosed := True, flushTimer := None\<rparr>, empty_world)"
    by (simp add: close_def stopFlushTimer_def flush_def flush_start_def test_client_def)
  have l: "later_state (test_client\<lparr>isClosed := True, flushTimer := None\<rparr>)
     (test_client\<lparr>isClosed := True, flushTimer := None\<rparr>)"
    by (rule later_refl)
  show ?thesis
    using track_after_close_fails [OF c l, of stringify_ok 0 empty_world] c l by simp
qed

section \<open>The client: closing\<close>

lemma delete_count_whole:
  "batchSize c = PosInfinity \<or> (\<exists>x. batchSize c = Finite x \<and> real n \<le> x) \<Longrightarrow>
     delete_count (batchSize c) n = n"
proof (erule disjE)
  assume "batchSize c = PosInfinity"
  then show ?thesis by simp
next
  assume "\<exists>x. batchSize c = Finite x \<and> real n \<le> x"
  then obtain x where x: "batchSize c = Finite x" "real n \<le> x" by blast
  then have "0 \<le> x" by (meson of_nat_0_le_iff order_trans)
  then have "to_integer x = \<lfloor>x\<rfloor>" by (simp add: to_integer_def)
  moreover have "int n \<le> \<lfloor>x\<rfloor>" using x(2) by (simp add: le_floor_iff)
  ultimately show ?thesis using x(1) by simp
qed

text \<open>
  C8, as the code has it. \<^verbatim>\<open>close()\<close> marks the client closed, stops the timer and runs one
  final flush. With an empty queue that flush sends nothing and the queue stays empty.
  With \<open>N\<close> pending events, \<open>1 \<le> N \<le> batchSize\<close>, whose batch can be serialised, the
  synchronous part of \<^verbatim>\<open>close()\<close> takes all \<open>N\<close> events and makes exactly one call of
  \<^verbatim>\<open>fetch\<close>, a \<^verbatim>\<open>POST\<close> to the batch endpoint whose body is the serialised queue. On a 2xx
  response nothing is put back, whatever the queue holds by then; so when no other flush
  is in flight and nothing else runs on the client while \<^verbatim>\<open>close()\<close> awaits the send, the
  queue is empty afterwards.
\<close>

theorem close_final_flush:
  assumes "close S out c w = (r, c', w')"
  shows "isClosed c' \<and> flushTimer c' = None \<and>
         flush S out (c\<lparr>isClosed := True, flushTimer := None\<rparr>) w = (r, c', w') \<and>
         close_start S c w = flush_start S (c\<lparr>isClosed := True, flushTimer := None\<rparr>) w \<and>
         (eventQueue c = [] \<longrightarrow>
            close_start S c w = (Returned, c\<lparr>isClosed := True, flushTimer := None\<rparr>, w) \<and>
            r = Inr () \<and> fetch_calls w' = fetch_calls w \<and> getQueueSize c' = 0) \<and>
         (eventQueue c \<noteq> [] \<and>
          (batchSize c = PosInfinity \<or>
           (\<exists>x. batchSize c = Finite x \<and> real (length (eventQueue c)) \<le> x)) \<and>
          S (store w) (eventQueue c) = Inr b \<longrightarrow>
            close_start S c w =
              (Awaiting (eventQueue c), c\<lparr>isClosed := True, flushTimer := None, eventQueue := []\<rparr>,
               w\<lparr>fetch_calls := fetch_calls w @
                    [\<lparr>url = baseUrl c @ ''/api/v1/events/batch'',
                      http_method = ''POST'',
                      headers = [(''Content-Type'', ''application/json''),
                                 (''Authorization'', ''Bearer '' @ apiKey c)],
                      body = b\<rparr>]\<rparr>) \<and>
            fetch_calls w' = fetch_calls w @
                    [\<lparr>url = baseUrl c @ ''/api/v1/events/batch'',
                      http_method = ''POST'',
                      headers = [(''Content-Type'', ''application/json''),
                                 (''Authorization'', ''Bearer '' @ apiKey c)],
                      body = b\<rparr>] \<and>
            (\<forall>resp c2 w2. ok resp \<longrightarrow>
               flush_resume (Resolves resp) (eventQueue c) c2 w2 = (Inr (), c2, w2)) \<and>
            (\<forall>resp. out = Resolves resp \<and> ok resp \<longrightarrow> r = Inr () \<and> getQueueSize c' = 0))"
proof -
  let ?c = "c\<lparr>isClosed := True, flushTimer := None\<rparr>"
  let ?req = "\<lparr>url = baseUrl c @ ''/api/v1/events/batch'',
                      http_method = ''POST'',
                      headers = [(''Content-Type'', ''application/json''),
                                 (''Authorization'', ''Bearer '' @ apiKey c)],
                      body = b\<rparr>"
  have fl: "flush S out ?c w = (r, c', w')" using assms by (simp add: close_eq)
  have a1: "isClosed c'" using flush_effect [OF fl] by simp
  have a2: "flushTimer c' = None" using flush_effect [OF fl] by simp
  have cs: "close_start S c w = flush_start S ?c w" by (rule close_start_eq)
  have e: "close_start S c w = (Returned, ?c, w) \<and>
            r = Inr () \<and> fetch_calls w' = fetch_calls w \<and> getQueueSize c' = 0"
    if "eventQueue c = []"
  proof -
    have st: "flush_start S ?c w = (Returned, ?c, w)" using that by (simp add: flush_start_empty)
    then have "r = Inr ()" "c' = ?c" "w' = w" using fl by (simp_all add: flush_def)
    then show ?thesis using st cs that by (simp add: getQueueSize_def)
  qed
  have s: "close_start S c w =
              (Awaiting (eventQueue c), ?c\<lparr>eventQueue := []\<rparr>,
               w\<lparr>fetch_calls := fetch_calls w @ [?req]\<rparr>) \<and>
            fetch_calls w' = fetch_calls w @ [?req] \<and>
            (\<forall>resp c2 w2. ok resp \<longrightarrow>
               flush_resume (Resolves resp) (eventQueue c) c2 w2 = (Inr (), c2, w2)) \<and>
            (\<forall>resp. out = Resolves resp \<and> ok resp \<longrightarrow> r = Inr () \<and> getQueueSize c' = 0)"
    if h: "eventQueue c \<noteq> [] \<and>
          (batchSize c = PosInfinity \<or>
           (\<exists>x. batchSize c = Finite x \<and> real (length (eventQueue c)) \<le> x)) \<and>
          S (store w) (eventQueue c) = Inr b"
  proof -
    have dc: "delete_count (batchSize ?c) (length (eventQueue ?c)) = length (eventQueue c)"
      using delete_count_whole [of c "length (eventQueue c)"] h by simp
    have st: "flush_start S ?c w =
           (Awaiting (eventQueue c), ?c\<lparr>eventQueue := []\<rparr>,
            w\<lparr>fetch_calls := fetch_calls w @ [?req]\<rparr>)"
      using flush_start_calls [of ?c S w b] h dc by simp
    have rs: "flush_resume out (eventQueue c) (?c\<lparr>eventQueue := []\<rparr>)
           (w\<lparr>fetch_calls := fetch_calls w @ [?req]\<rparr>) = (r, c', w')"
      using fl st by (simp add: flush_def)
    have 1: "fetch_calls w' = fetch_calls w @ [?req]"
      using flush_resume_effect [OF rs] by simp
    have 2: "\<forall>resp c2 w2. ok resp \<longrightarrow>
               flush_resume (Resolves resp) (eventQueue c) c2 w2 = (Inr (), c2, w2)"
      by (simp add: flush_resume_ok)
    have 3: "r = Inr () \<and> getQueueSize c' = 0" if "out = Resolves resp \<and> ok resp" for resp
      using rs that by (auto simp add: flush_resume_ok getQueueSize_def)
    show ?thesis using cs st 1 2 3 by (intro conjI allI impI) simp_all
  qed
  have e': "eventQueue c = [] \<longrightarrow>
            close_start S c w = (Returned, ?c, w) \<and>
            r = Inr () \<and> fetch_calls w' = fetch_calls w \<and> getQueueSize c' = 0"
    using e by (rule impI)
  note s' = impI [OF s]
  show ?thesis by (intro conjI) (rule a1 a2 fl cs e' s')+
qed

theorem close_final_flush_witness:
  "close stringify_ok (Resolves \<lparr>status = 200, text_body = Inr ''''\<rparr>)
      (test_client\<lparr>eventQueue := [4, 7]\<rparr>) empty_world
   = (Inr (), test_client\<lparr>eventQueue := [], flushTimer := None, isClosed := True\<rparr>,
      empty_world\<lparr>fetch_calls :=
        [\<lparr>url = ''https://api.trusera.io/api/v1/events/batch'', http_method = ''POST'',
          headers = [(''Content-Type'', ''application/json''),
                     (''Authorization'', ''Bearer tsk_test123'')],
          body = ''{}''\<rparr>]\<rparr>)"
proof -
  have c: "close stringify_ok (Resolves \<lparr>status = 200, text_body = Inr ''''\<rparr>)
      (test_client\<lparr>eventQueue := [4, 7]\<rparr>) empty_world
   = (Inr (), test_client\<lparr>eventQueue := [], flushTimer := None, isClosed := True\<rparr>,
      empty_world\<lparr>fetch_calls :=
        [\<lparr>url = ''https://api.trusera.io/api/v1/events/batch'', http_method = ''POST'',
          headers = [(''Content-Type'', ''application/json''),
                     (''Authorization'', ''Bearer tsk_test123'')],
          body = ''{}''\<rparr>]\<rparr>)"
    by (simp add: close_def stopFlushTimer_def flush_def flush_start_def splice0_def Let_def
          flush_try_call_def flush_resume_def flush_try_settled_def ok_def to_integer_def
          test_client_def empty_world_def)
  show ?thesis using close_final_flush [OF c, of "''{}''"] c by simp
qed

text \<open>
  C8 as stated fails for \<open>N = 0\<close>: closing a client with nothing pending sends no request,
  not one. It also fails when \<^verbatim>\<open>JSON.stringify\<close> throws on the batch: no request is sent.
\<close>

theorem close_empty_queue_counterexample:
  "batchSize test_client = Finite 100 \<and>
   real (length (eventQueue test_client)) \<le> 100 \<and>
   fetch_calls (snd (snd (close stringify_ok (Resolves \<lparr>status = 200, text_body = Inr ''''\<rparr>)
       test_client empty_world))) = [] \<and>
   real (length (eventQueue (test_client\<lparr>eventQueue := [4]\<rparr>))) \<le> 100 \<and>
   fetch_calls (snd (snd (close stringify_throws
       (Resolves \<lparr>status = 200, text_body = Inr ''''\<rparr>)
       (test_client\<lparr>eventQueue := [4]\<rparr>) empty_world))) = []"
  by (simp add: close_def stopFlushTimer_def flush_def flush_start_def splice0_def Let_def
        flush_try_call_def flush_catch_def unshift_def to_integer_def
        test_client_def empty_world_def)

section \<open>The interceptor: the transport slot\<close>

lemma install_invariant: "slot_invariant P \<Longrightarrow> install P i opts = Inr P' \<Longrightarrow> slot_invariant P'"
  by (auto simp: slot_invariant_def install_def split: option.splits if_splits)

lemma uninstall_invariant: "slot_invariant P \<Longrightarrow> slot_invariant (uninstall P i)"
  by (auto simp: slot_invariant_def uninstall_def split: option.splits if_splits)

lemma reachable_invariant: "reachable P \<Longrightarrow> slot_invariant P"
proof (induction rule: reachable.induct)
  case (reach_initial t)
  show ?case by (simp add: slot_invariant_def initial_process_def)
next
  case (reach_install P i opts P')
  then show ?case using install_invariant by blast
next
  case (reach_uninstall P i)
  then show ?case using uninstall_invariant by blast
next
  case (reach_assign P n)
  then show ?case by (simp add: slot_invariant_def)
qed

lemma installed_since_reachable: "installed_since i t P \<Longrightarrow> reachable P"
  by (induction rule: installed_since.induct) (auto intro: reachable.intros)

lemma installed_since_saved: "installed_since i t P \<Longrightarrow> installed P i \<and> saved P i = Some t"
proof (induction rule: installed_since.induct)
  case (since_install P i opts P')
  then have "active P \<noteq> Some i" using reachable_invariant by (auto simp: slot_invariant_def)
  then show ?case using since_install
    by (auto simp: install_def split: option.splits if_splits)
next
  case (since_install_again i t P j opts P')
  have "slot_invariant P" using since_install_again installed_since_reachable reachable_invariant by blast
  then have "active P = Some i" using since_install_again by (auto simp: slot_invariant_def)
  then have "P' = P" using since_install_again by (auto simp: install_def split: if_splits)
  then show ?case using since_install_again by simp
next
  case (since_uninstall_other i t P j)
  have "slot_invariant P" using since_uninstall_other installed_since_reachable reachable_invariant by blast
  then have "\<not> installed P j" using since_uninstall_other by (auto simp: slot_invariant_def)
  then show ?case using since_uninstall_other by (simp add: uninstall_def)
next
  case (since_assign i t P n)
  then show ?case by simp
qed

text \<open>
  C2. In every state the process can reach: at most one interceptor instance is installed;
  \<^verbatim>\<open>install\<close> by an instance other than the installed one fails with the already-installed
  error; \<^verbatim>\<open>install\<close> on the installed instance changes nothing; \<^verbatim>\<open>uninstall\<close> on an instance
  that is not installed changes nothing; with no instance installed, \<^verbatim>\<open>install\<close> succeeds
  and puts the instance's intercepting function in the slot; and \<^verbatim>\<open>uninstall\<close> on an
  instance installed since the transport was \<open>t\<close> puts exactly \<open>t\<close> back and leaves no
  instance installed.
\<close>

theorem transport_slot_discipline:
  assumes "reachable P"
  shows "(installed P i \<and> installed P j \<longrightarrow> i = j) \<and>
         (installed P j \<and> i \<noteq> j \<longrightarrow> install P i opts = Inl AlreadyInstalledError) \<and>
         (installed P i \<longrightarrow> install P i opts = Inr P) \<and>
         (\<not> installed P i \<longrightarrow> uninstall P i = P) \<and>
         ((\<forall>j. \<not> installed P j) \<longrightarrow>
            (\<exists>P'. install P i opts = Inr P' \<and> installed P' i \<and>
                  transport_slot P' = Intercepting i \<and>
                  installed_since i (transport_slot P) P')) \<and>
         (\<forall>t. installed_since i t P \<longrightarrow>
            transport_slot (uninstall P i) = t \<and> (\<forall>j. \<not> installed (uninstall P i) j))"
proof -
  have inv: "slot_invariant P" using assms by (rule reachable_invariant)
  have 1: "installed P i \<and> installed P j \<longrightarrow> i = j"
    using inv by (auto simp: slot_invariant_def)
  have 2: "installed P j \<and> i \<noteq> j \<longrightarrow> install P i opts = Inl AlreadyInstalledError"
    using inv by (auto simp: slot_invariant_def install_def)
  have 3: "installed P i \<longrightarrow> install P i opts = Inr P"
    using inv by (auto simp: slot_invariant_def install_def)
  have 4: "\<not> installed P i \<longrightarrow> uninstall P i = P"
    by (simp add: uninstall_def)
  have 5: "\<exists>P'. install P i opts = Inr P' \<and> installed P' i \<and>
                  transport_slot P' = Intercepting i \<and>
                  installed_since i (transport_slot P) P'"
    if none: "\<forall>j. \<not> installed P j"
  proof -
    have a: "active P = None" using inv none by (cases "active P") (auto simp: slot_invariant_def)
    let ?P' = "P\<lparr>transport_slot := Intercepting i, active := Some i,
                 installed := (installed P)(i := True),
                 saved := (saved P)(i \<mapsto> transport_slot P),
                 options_of := (options_of P)(i \<mapsto> opts)\<rparr>"
    have i: "install P i opts = Inr ?P'" using a by (simp add: install_def)
    have s: "installed_since i (transport_slot P) ?P'"
      using since_install [OF assms _ i] none by blast
    show ?thesis using i s by simp
  qed
  have 6: "transport_slot (uninstall P i) = t \<and> (\<forall>j. \<not> installed (uninstall P i) j)"
    if "installed_since i t P" for t
  proof -
    have s: "installed P i" "saved P i = Some t" using installed_since_saved [OF that] by simp_all
    have "\<forall>j. j \<noteq> i \<longrightarrow> \<not> installed P j" using inv s(1) by (auto simp: slot_invariant_def)
    then show ?thesis using s by (simp add: uninstall_def)
  qed
  from 1 2 3 4 5 6 show ?thesis by blast
qed


theorem transport_slot_discipline_witness:
  "reachable (initial_process (External 0)) \<and>
   (\<exists>P'. install (initial_process (External 0)) 1 example_options = Inr P' \<and>
         transport_slot P' = Intercepting 1 \<and>
         install P' 2 example_options = Inl AlreadyInstalledError \<and>
         install P' 1 example_options = Inr P' \<and>
         transport_slot (uninstall P' 1) = External 0)"
proof -
  have r: "reachable (initial_process (External 0))" by (rule reach_initial)
  have n: "\<forall>j. \<not> installed (initial_process (External 0)) j" by (simp add: initial_process_def)
  have t: "transport_slot (initial_process (External 0)) = External 0" by (simp add: initial_process_def)
  from transport_slot_discipline [OF r, of 1 1 example_options] n
  obtain P' where P': "install (initial_process (External 0)) 1 example_options = Inr P'"
      "installed P' 1" "transport_slot P' = Intercepting 1"
      "installed_since 1 (transport_slot (initial_process (External 0))) P'"
    by blast
  have r': "reachable P'" using reach_install [OF r P'(1)] .
  have a: "install P' 2 example_options = Inl AlreadyInstalledError"
    using transport_slot_discipline [OF r', of 2 1 example_options] P'(2) by simp
  have b: "install P' 1 example_options = Inr P'"
    using transport_slot_discipline [OF r', of 1 1 example_options] P'(2) by simp
  have c: "transport_slot (uninstall P' 1) = External 0"
    using transport_slot_discipline [OF r', of 1 1 example_options] P'(4) t by simp
  show ?thesis using r P' a b c by blast
qed


section \<open>The interceptor: policy enforcement\<close>

lemma policy_step_fails:
  "policy_step opts (PolicyFails e) =
     (case policyUrl opts of
        None \<Rightarrow> ([], [], [], None)
      | Some pu \<Rightarrow> if enforcement opts = Log then ([], [], [], None) else ([pu], [], [e], None))"
  by (simp add: policy_step_def split: option.splits)

text \<open>
  C3. When the call to the policy service fails, an intercepted call is let through in
  every enforcement mode: the real call is made once, through the saved prior transport,
  and the caller gets its outcome, not a policy violation. In the modes \<open>Warn\<close> and \<open>Block\<close>,
  with a policy URL configured and a URL that is not excluded, the policy service was
  indeed called and its failure is logged.
\<close>

theorem policy_failure_fails_open:
  "real_calls (intercept re_test opts prior u (PolicyFails e) actual) = [(prior, u)] \<and>
   outcome (intercept re_test opts prior u (PolicyFails e) actual) = Passed actual \<and>
   (policyUrl opts = Some pu \<and> enforcement opts \<noteq> Log \<and>
    \<not> is_excluded re_test (excludePatterns opts) u \<longrightarrow>
      policy_calls (intercept re_test opts prior u (PolicyFails e) actual) = [pu] \<and>
      policy_failures (intercept re_test opts prior u (PolicyFails e) actual) = [e])"
  by (simp add: intercept_def policy_step_fails split: option.splits)

theorem policy_failure_fails_open_witness:
  "policy_calls (intercept no_match example_options (External 0) ''https://api.example.com/test''
      (PolicyFails (Error ''Policy service down'')) (Resolves \<lparr>status = 200, text_body = Inr ''''\<rparr>))
     = [''https://policy.example.com/evaluate''] \<and>
   real_calls (intercept no_match example_options (External 0) ''https://api.example.com/test''
      (PolicyFails (Error ''Policy service down'')) (Resolves \<lparr>status = 200, text_body = Inr ''''\<rparr>))
     = [(External 0, ''https://api.example.com/test'')] \<and>
   outcome (intercept no_match example_options (External 0) ''https://api.example.com/test''
      (PolicyFails (Error ''Policy service down'')) (Resolves \<lparr>status = 200, text_body = Inr ''''\<rparr>))
     = Passed (Resolves \<lparr>status = 200, text_body = Inr ''''\<rparr>)"
  using policy_failure_fails_open [of no_match example_options "External 0"
      "''https://api.example.com/test''" "Error ''Policy service down''"
      "Resolves \<lparr>status = 200, text_body = Inr ''''\<rparr>" "''https://policy.example.com/evaluate''"]
  by (simp add: example_options_def is_excluded_def)

text \<open>
  C4. In mode \<open>Block\<close> with a policy URL configured, an intercepted call to a URL that is not
  excluded, for which the policy service answers \<open>Deny\<close>, with or without reasons, fails
  with a \<^verbatim>\<open>PolicyViolationError\<close>, and no call is made through the saved prior transport.
  When the answer gives reasons, the message is the violation prefix followed by the first
  of them, so it contains the first reason; when it gives none, the message is the prefix.
\<close>

theorem block_deny_aborts:
  assumes "enforcement opts = Block" and "policyUrl opts = Some pu"
    and "\<not> is_excluded re_test (excludePatterns opts) u"
  shows "real_calls (intercept re_test opts prior u (PolicyAnswers Deny reasons) actual) = [] \<and>
         policy_calls (intercept re_test opts prior u (PolicyAnswers Deny reasons) actual) = [pu] \<and>
         (\<exists>msg. outcome (intercept re_test opts prior u (PolicyAnswers Deny reasons) actual)
                  = PolicyViolationError msg \<and>
                (reasons = [] \<longrightarrow> msg = ''[Trusera] Policy violation: '') \<and>
                (\<forall>reason rest. reasons = reason # rest \<longrightarrow>
                   msg = ''[Trusera] Policy violation: '' @ reason \<and>
                   (\<exists>before after. msg = before @ reason @ after)))"
proof -
  let ?msg = "''[Trusera] Policy violation: '' @ (case reasons of [] \<Rightarrow> [] | x # xs \<Rightarrow> x)"
  have "policy_step opts (PolicyAnswers Deny reasons) = ([pu], [], [], Some ?msg)"
    using assms(1,2) by (simp add: policy_step_def first_reason_def)
  then have i: "intercept re_test opts prior u (PolicyAnswers Deny reasons) actual
      = \<lparr>tracked = [CallStarted u], policy_calls = [pu], real_calls = [], warnings = [],
         policy_failures = [], outcome = PolicyViolationError ?msg\<rparr>"
    using assms(3) by (simp add: intercept_def)
  have e: "reasons = [] \<longrightarrow> ?msg = ''[Trusera] Policy violation: ''" by simp
  have c: "\<forall>reason rest. reasons = reason # rest \<longrightarrow>
                   ?msg = ''[Trusera] Policy violation: '' @ reason \<and>
                   (\<exists>before after. ?msg = before @ reason @ after)"
  proof (intro allI impI)
    fix reason rest assume r: "reasons = reason # rest"
    have "?msg = ''[Trusera] Policy violation: '' @ reason @ []" using r by simp
    then have "\<exists>before after. ?msg = before @ reason @ after" by blast
    then show "?msg = ''[Trusera] Policy violation: '' @ reason \<and>
                   (\<exists>before after. ?msg = before @ reason @ after)" using r by simp
  qed
  have m: "\<exists>msg. outcome (intercept re_test opts prior u (PolicyAnswers Deny reasons) actual)
                  = PolicyViolationError msg \<and>
                (reasons = [] \<longrightarrow> msg = ''[Trusera] Policy violation: '') \<and>
                (\<forall>reason rest. reasons = reason # rest \<longrightarrow>
                   msg = ''[Trusera] Policy violation: '' @ reason \<and>
                   (\<exists>before after. msg = before @ reason @ after))"
  proof (intro exI [of _ ?msg] conjI)
    show "outcome (intercept re_test opts prior u (PolicyAnswers Deny reasons) actual)
            = PolicyViolationError ?msg" using i by simp
    show "reasons = [] \<longrightarrow> ?msg = ''[Trusera] Policy violation: ''" by (rule e)
    show "\<forall>reason rest. reasons = reason # rest \<longrightarrow>
                   ?msg = ''[Trusera] Policy violation: '' @ reason \<and>
                   (\<exists>before after. ?msg = before @ reason @ after)" by (rule c)
  qed
  have rc: "real_calls (intercept re_test opts prior u (PolicyAnswers Deny reasons) actual) = []"
    using i by simp
  have pc: "policy_calls (intercept re_test opts prior u (PolicyAnswers Deny reasons) actual) = [pu]"
    using i by simp
  show ?thesis by (intro conjI) (rule rc pc m)+
qed

theorem block_deny_aborts_witness:
  "enforcement example_options = Block \<and>
   policyUrl example_options = Some ''https://policy.example.com/evaluate'' \<and>
   \<not> is_excluded no_match (excludePatterns example_options) ''https://api.example.com/test'' \<and>
   outcome (intercept no_match example_options (External 0) ''https://api.example.com/test''
       (PolicyAnswers Deny [''Unauthorized API access''])
       (Resolves \<lparr>status = 200, text_body = Inr ''''\<rparr>))
     = PolicyViolationError ''[Trusera] Policy violation: Unauthorized API access'' \<and>
   real_calls (intercept no_match example_options (External 0) ''https://api.example.com/test''
       (PolicyAnswers Deny [''Unauthorized API access''])
       (Resolves \<lparr>status = 200, text_body = Inr ''''\<rparr>)) = [] \<and>
   outcome (intercept no_match example_options (External 0) ''https://api.example.com/test''
       (PolicyAnswers Deny [])
       (Resolves \<lparr>status = 200, text_body = Inr ''''\<rparr>))
     = PolicyViolationError ''[Trusera] Policy violation: '' \<and>
   real_calls (intercept no_match example_options (External 0) ''https://api.example.com/test''
       (PolicyAnswers Deny [])
       (Resolves \<lparr>status = 200, text_body = Inr ''''\<rparr>)) = []"
proof -
  have a: "enforcement example_options = Block" by (simp add: example_options_def)
  have b: "policyUrl example_options = Some ''https://policy.example.com/evaluate''"
    by (simp add: example_options_def)
  have c: "\<not> is_excluded no_match (excludePatterns example_options) ''https://api.example.com/test''"
    by (simp add: is_excluded_def example_options_def)
  note T1 = block_deny_aborts [OF a b c, of "External 0" "[''Unauthorized API access'']"
        "Resolves \<lparr>status = 200, text_body = Inr ''''\<rparr>"]
  note T2 = block_deny_aborts [OF a b c, of "External 0" "[]"
        "Resolves \<lparr>status = 200, text_body = Inr ''''\<rparr>"]
  have 1: "outcome (intercept no_match example_options (External 0) ''https://api.example.com/test''
       (PolicyAnswers Deny [''Unauthorized API access''])
       (Resolves \<lparr>status = 200, text_body = Inr ''''\<rparr>))
     = PolicyViolationError ''[Trusera] Policy violation: Unauthorized API access''"
    using T1 by auto
  have 2: "outcome (intercept no_match example_options (External 0) ''https://api.example.com/test''
       (PolicyAnswers Deny [])
       (Resolves \<lparr>status = 200, text_body = Inr ''''\<rparr>))
     = PolicyViolationError ''[Trusera] Policy violation: ''"
    using T2 by auto
  show ?thesis by (intro conjI) (rule a b c 1 2 T1 [THEN conjunct1] T2 [THEN conjunct1])+
qed

end
